theory Spec2Isabelle
  imports Complex_Main "HOL-Library.Multiset" "HOL-Library.Sublist"
begin

section \<open>Conventions of the embedding\<close>

text \<open>
  The development embeds \<^verbatim>\<open>src/multi_tool_agent/agent.py\<close>: the five tool
  functions of the shopping assistant (file top) and the modules \<^verbatim>\<open>utils\<close>,
  \<^verbatim>\<open>sensors\<close> and \<^verbatim>\<open>agent\<close> of the ZebraAgent simulation.

  \<^item> Python \<^verbatim>\<open>float\<close> values are idealised as \<^typ>\<open>real\<close>: rounding errors, infinities,
    NaN and signed zeros are outside the model.
  \<^item> A Python \<^verbatim>\<open>str\<close> is a \<^typ>\<open>string\<close> whose characters are read as the code
    points 0..255 (Latin-1); \<^verbatim>\<open>str.lower\<close>, \<^verbatim>\<open>str.isspace\<close> are those of Python
    on that range. Code points above 255 are outside the model.
  \<^item> The two JSON files are a record of optional contents (\<open>None\<close>: the file does not
    exist). Report texts, which are presentation only, are not modelled: a result
    carries its status and its structured payload.
\<close>

section \<open>Strings\<close>

definition lower_char :: "char \<Rightarrow> char" where
  "lower_char c =
     (let n = (of_char c :: nat)
      in if (65 \<le> n \<and> n \<le> 90) \<or> (192 \<le> n \<and> n \<le> 222 \<and> n \<noteq> 215)
         then char_of (n + 32) else c)"

definition lower :: "string \<Rightarrow> string" where
  "lower s = map lower_char s"

definition isspace :: "char \<Rightarrow> bool" where
  "isspace c =
     (let n = (of_char c :: nat)
      in (9 \<le> n \<and> n \<le> 13) \<or> (28 \<le> n \<and> n \<le> 32) \<or> n = 133 \<or> n = 160)"

definition strip :: "string \<Rightarrow> string" where
  "strip s = rev (dropWhile isspace (rev (dropWhile isspace s)))"

text \<open>\<^verbatim>\<open>s.replace(",", " ")\<close>.\<close>

definition replace_comma :: "string \<Rightarrow> string" where
  "replace_comma s = map (\<lambda>c. if c = CHR '','' then CHR '' '' else c) s"

text \<open>
  \<^verbatim>\<open>s.split()\<close> without arguments: the maximal runs of non-whitespace characters, in
  order; \<open>cur\<close> is the run being read.
\<close>

fun split_from :: "string \<Rightarrow> string \<Rightarrow> string list" where
  "split_from cur [] = (if cur = [] then [] else [cur])"
| "split_from cur (c # cs) =
     (if isspace c then (if cur = [] then split_from [] cs else cur # split_from [] cs)
      else split_from (cur @ [c]) cs)"

definition split :: "string \<Rightarrow> string list" where
  "split s = split_from [] s"

text \<open>\<^verbatim>\<open>a in b\<close> on strings: \<open>a\<close> occurs in \<open>b\<close> as a contiguous substring.\<close>

fun str_in :: "string \<Rightarrow> string \<Rightarrow> bool" where
  "str_in a [] = (a = [])"
| "str_in a (c # cs) = (prefix a (c # cs) \<or> str_in a cs)"

section \<open>The shopping-list tools\<close>

record produto_json =
  nome_produto :: string
  corredor :: string
  seccao :: string
  prateleira :: string
  caixa :: string
  coordenada_x :: real
  coordenada_y :: real

record ficheiros =
  lista_compras :: "string list option"
  localizacoes :: "produto_json list option"

datatype erro =
  ListaVazia
  | SemListaGuardada
  | SemFicheiroLocalizacoes
  | NenhumProdutoComCoordenadas
  | NenhumProdutoDaLista

text \<open>
  \<^verbatim>\<open>guardar_lista_compras\<close> (lines 14-30): on a blank text the error result and no
  write; otherwise the list is written to the list file and reported.
\<close>

definition itens_da_lista :: "string \<Rightarrow> string list" where
  "itens_da_lista itens =
     map (\<lambda>item. lower (strip item)) (filter (\<lambda>item. strip item \<noteq> []) (split (replace_comma itens)))"

definition guardar_lista_compras :: "string \<Rightarrow> ficheiros \<Rightarrow> (erro + string list) \<times> ficheiros" where
  "guardar_lista_compras itens fs =
     (if strip itens = [] then (Inl ListaVazia, fs)
      else (let lista_itens = itens_da_lista itens
            in (Inr lista_itens, fs\<lparr>lista_compras := Some lista_itens\<rparr>)))"

text \<open>
  An entry of \<^verbatim>\<open>resultados\<close>: the dictionary of a located product, or the dictionary
  \<^verbatim>\<open>{"produto": item, "erro": ...}\<close> of an item that was not found (its message is a
  constant). Both have the key \<^verbatim>\<open>"produto"\<close>.
\<close>

datatype resultado =
  Localizado (produto: string) (r_corredor: string) (r_seccao: string)
    (r_prateleira: string) (r_caixa: string) (r_x: real) (r_y: real)
  | NaoEncontrado (produto: string)

definition localizado :: "produto_json \<Rightarrow> resultado" where
  "localizado p =
     Localizado (nome_produto p) (corredor p) (seccao p) (prateleira p) (caixa p)
       (coordenada_x p) (coordenada_y p)"

text \<open>Line 64: the catalogue entries whose name contains the item, case-insensitively.\<close>

definition correspondencias :: "string \<Rightarrow> produto_json list \<Rightarrow> produto_json list" where
  "correspondencias item produtos =
     filter (\<lambda>p. str_in (lower item) (lower (nome_produto p))) produtos"

text \<open>Lines 62-80: the loop over the list items, \<open>resultados\<close> being the accumulator.\<close>

fun resultados_loop :: "produto_json list \<Rightarrow> resultado list \<Rightarrow> string list \<Rightarrow> resultado list" where
  "resultados_loop produtos resultados [] = resultados"
| "resultados_loop produtos resultados (item # lista_itens) =
     (let cs = correspondencias item produtos
      in resultados_loop produtos
           (if cs \<noteq> [] then resultados @ map localizado cs
            else resultados @ [NaoEncontrado item])
           lista_itens)"

definition obter_localizacoes_lista :: "ficheiros \<Rightarrow> erro + resultado list" where
  "obter_localizacoes_lista fs =
     (case lista_compras fs of
        None \<Rightarrow> Inl SemListaGuardada
      | Some lista_itens \<Rightarrow>
          (case localizacoes fs of
             None \<Rightarrow> Inl SemFicheiroLocalizacoes
           | Some produtos \<Rightarrow> Inr (resultados_loop produtos [] lista_itens)))"

section \<open>Geometry (utils)\<close>

type_synonym pos = "real \<times> real"

text \<open>\<^verbatim>\<open>math.hypot(a[0]-b[0], a[1]-b[1])\<close>, and \<^verbatim>\<open>math.dist\<close>, which computes the same.\<close>

definition distance :: "pos \<Rightarrow> pos \<Rightarrow> real" where
  "distance a b = sqrt ((fst a - fst b)\<^sup>2 + (snd a - snd b)\<^sup>2)"

datatype py_error = ZeroDivisionError

text \<open>
  Python's \<^verbatim>\<open>round(x)\<close> of a float, with one argument: the nearest integer, a tie
  going to the even one.
\<close>

definition py_round :: "real \<Rightarrow> int" where
  "py_round x =
     (let f = \<lfloor>x\<rfloor>; r = x - of_int f
      in if r < 1/2 then f else if 1/2 < r then f + 1 else if even f then f else f + 1)"

text \<open>\<^verbatim>\<open>meters_to_steps\<close> (lines 400-402); the division raises on a zero step length.\<close>

definition meters_to_steps :: "real \<Rightarrow> real \<Rightarrow> py_error + int" where
  "meters_to_steps meters step_length_m =
     (if step_length_m = 0 then Inl ZeroDivisionError
      else Inr (max 1 (py_round (meters / step_length_m))))"

text \<open>
  \<^verbatim>\<open>math.atan2(y, x)\<close>: the angle of the point \<open>(x, y)\<close> in \<open>(-pi, pi]\<close>, and
  \<^verbatim>\<open>math.degrees\<close>.
\<close>

definition atan2 :: "real \<Rightarrow> real \<Rightarrow> real" where
  "atan2 y x =
     (if 0 < x then arctan (y / x)
      else if x < 0 then (if 0 \<le> y then arctan (y / x) + pi else arctan (y / x) - pi)
      else if 0 < y then pi / 2
      else if y < 0 then - (pi / 2)
      else 0)"

definition degrees :: "real \<Rightarrow> real" where
  "degrees a = a * 180 / pi"

text \<open>\<^verbatim>\<open>direction_from_vector\<close> (lines 404-416).\<close>

definition direction_from_vector :: "real \<Rightarrow> real \<Rightarrow> string" where
  "direction_from_vector dx dy =
     (if \<bar>dx\<bar> < 3/10 \<and> \<bar>dy\<bar> < 3/10 then ''em frente''
      else (let angle = degrees (atan2 dy dx)
            in if - 45 \<le> angle \<and> angle \<le> 45 then ''direita''
               else if 45 < angle \<and> angle \<le> 135 then ''frente''
               else if 135 < angle \<or> angle < - 135 then ''esquerda''
               else ''tras''))"

section \<open>Nearest-neighbour route (tools)\<close>

text \<open>
  \<^verbatim>\<open>min(p0 :: ps, key=key)\<close>: the first element whose key is minimal.
\<close>

fun min_key :: "('a \<Rightarrow> real) \<Rightarrow> 'a \<Rightarrow> 'a list \<Rightarrow> 'a" where
  "min_key key best [] = best"
| "min_key key best (x # xs) = min_key key (if key x < key best then x else best) xs"

text \<open>
  The \<^verbatim>\<open>while\<close> loop of lines 121-138 and of lines 186-199, which differ only in the
  key that names a product (\<^verbatim>\<open>"produto"\<close>, \<^verbatim>\<open>"nome_produto"\<close>): \<open>nome\<close> reads the name
  and \<open>coord\<close> the two coordinates of an entry.
\<close>

function nn_loop ::
  "('a \<Rightarrow> string) \<Rightarrow> ('a \<Rightarrow> pos) \<Rightarrow> 'a list \<Rightarrow> 'a list \<Rightarrow> string set \<Rightarrow> 'a \<Rightarrow> 'a list" where
  "nn_loop nome coord produtos rota visitados atual =
     (if card visitados < length produtos then
        (case filter (\<lambda>p. nome p \<notin> visitados) produtos of
           [] \<Rightarrow> rota
         | p0 # ps \<Rightarrow>
             (let proximo = min_key (\<lambda>p. distance (coord atual) (coord p)) p0 ps
              in nn_loop nome coord produtos (rota @ [proximo])
                   (insert (nome proximo) visitados) proximo))
      else rota)"
  by pat_completeness auto
termination
proof (relation "measure (\<lambda>(nome, coord, produtos, rota, visitados, atual).
                   length (filter (\<lambda>p. nome p \<notin> visitados) produtos))", goal_cases)
  case 1
  show ?case by simp
next
  case (2 nome coord produtos rota visitados atual p0 ps proximo)
  have mem: "min_key k b xs \<in> set (b # xs)" for k :: "'a \<Rightarrow> real" and b xs
    by (induction xs arbitrary: b) auto
  have "proximo \<in> set (p0 # ps)"
    using 2 mem by simp
  then have "proximo \<in> set (filter (\<lambda>p. nome p \<notin> visitados) produtos)"
    using 2 by simp
  then have a: "proximo \<in> set produtos" and b: "nome proximo \<notin> visitados"
    by simp_all
  have eq: "filter (\<lambda>p. nome p \<notin> insert (nome proximo) visitados) produtos
        = filter (\<lambda>p. nome p \<noteq> nome proximo) (filter (\<lambda>p. nome p \<notin> visitados) produtos)"
    by (auto intro: filter_cong)
  have m: "proximo \<in> set (filter (\<lambda>p. nome p \<notin> visitados) produtos)"
    using a b by simp
  have "length (filter (\<lambda>p. nome p \<noteq> nome proximo) (filter (\<lambda>p. nome p \<notin> visitados) produtos))
          < length (filter (\<lambda>p. nome p \<notin> visitados) produtos)"
    by (rule length_filter_less [OF m]) simp
  then have "length (filter (\<lambda>p. nome p \<notin> insert (nome proximo) visitados) produtos)
          < length (filter (\<lambda>p. nome p \<notin> visitados) produtos)"
    by (simp only: eq)
  then show ?case by simp
qed

text \<open>
  Lines 115-138: the route starts at the first product. Both callers return their error
  result before this point when the list is empty, so that \<^verbatim>\<open>produtos[0]\<close> never
  raises; the first case below is not reached from them.
\<close>

definition nearest_neighbor :: "('a \<Rightarrow> string) \<Rightarrow> ('a \<Rightarrow> pos) \<Rightarrow> 'a list \<Rightarrow> 'a list" where
  "nearest_neighbor nome coord produtos =
     (case produtos of
        [] \<Rightarrow> []
      | atual # _ \<Rightarrow> nn_loop nome coord produtos [atual] {nome atual} atual)"

definition is_localizado :: "resultado \<Rightarrow> bool" where
  "is_localizado p = (case p of Localizado _ _ _ _ _ _ _ \<Rightarrow> True | NaoEncontrado _ \<Rightarrow> False)"

definition r_coord :: "resultado \<Rightarrow> pos" where
  "r_coord p = (r_x p, r_y p)"

text \<open>\<^verbatim>\<open>gerar_rota_otimizada\<close> (lines 99-151).\<close>

definition gerar_rota_otimizada :: "ficheiros \<Rightarrow> erro + resultado list" where
  "gerar_rota_otimizada fs =
     (case obter_localizacoes_lista fs of
        Inl e \<Rightarrow> Inl e
      | Inr resultados \<Rightarrow>
          (let produtos = filter is_localizado resultados
           in if produtos = [] then Inl NenhumProdutoComCoordenadas
              else Inr (nearest_neighbor produto r_coord produtos)))"

text \<open>
  \<^verbatim>\<open>mostrar_rota_visual\<close> (lines 155-326). The HTML page and the browser are
  presentation; an instruction is modelled by its three variable parts: the direction,
  the distance and the name of the product reached.
\<close>

definition selecionados_de :: "string list \<Rightarrow> produto_json list \<Rightarrow> produto_json list" where
  "selecionados_de lista produtos =
     (let lista_itens = map (\<lambda>i. strip (lower i)) lista
      in filter (\<lambda>p. list_ex (\<lambda>item. str_in item (lower (nome_produto p))) lista_itens) produtos)"

definition direcao_visual :: "real \<Rightarrow> string" where
  "direcao_visual angulo =
     (if - 45 \<le> angulo \<and> angulo \<le> 45 then ''siga em frente''
      else if 45 < angulo \<and> angulo \<le> 135 then ''vire '' @ [CHR 0xE0] @ '' esquerda''
      else if - 135 \<le> angulo \<and> angulo < - 45 then ''vire '' @ [CHR 0xE0] @ '' direita''
      else ''inverta a dire'' @ [CHR 0xE7, CHR 0xE3] @ ''o'')"

definition j_coord :: "produto_json \<Rightarrow> pos" where
  "j_coord p = (coordenada_x p, coordenada_y p)"

fun instrucoes_de :: "produto_json list \<Rightarrow> (string \<times> real \<times> string) list" where
  "instrucoes_de (a # b # rota) =
     (let dx = coordenada_x b - coordenada_x a; dy = coordenada_y b - coordenada_y a;
          distancia = sqrt (dx\<^sup>2 + dy\<^sup>2);
          angulo = degrees (atan2 dy dx)
      in (direcao_visual angulo, distancia, nome_produto b) # instrucoes_de (b # rota))"
| "instrucoes_de rota = []"

definition mostrar_rota_visual ::
  "ficheiros \<Rightarrow> erro + (string \<times> real \<times> string) list \<times> produto_json list" where
  "mostrar_rota_visual fs =
     (case lista_compras fs of
        None \<Rightarrow> Inl SemListaGuardada
      | Some lista \<Rightarrow>
          (case localizacoes fs of
             None \<Rightarrow> Inl SemFicheiroLocalizacoes
           | Some produtos \<Rightarrow>
               (let selecionados = selecionados_de lista produtos
                in if selecionados = [] then Inl NenhumProdutoDaLista
                   else (let rota = nearest_neighbor nome_produto j_coord selecionados
                         in Inr (instrucoes_de rota, rota)))))"

section \<open>Sensors\<close>

record Product =
  uid :: string
  name :: string
  position :: pos
  shelf_level :: int

record ZebraDevice =
  sensitivity :: real

text \<open>\<^verbatim>\<open>ZebraDevice.sweep\<close> (lines 489-495).\<close>

definition sweep :: "ZebraDevice \<Rightarrow> Product \<Rightarrow> pos \<Rightarrow> int \<Rightarrow> bool" where
  "sweep self product device_pos device_height =
     (let d = distance (position product) device_pos
      in if d \<le> sensitivity self \<and> shelf_level product = device_height then True else False)"

text \<open>
  \<^verbatim>\<open>StoreMap.products\<close> is a dictionary, read in insertion order: an association
  list. \<^verbatim>\<open>add_product\<close> overwrites the value of a key where it stands and appends a new
  key.
\<close>

type_synonym StoreMap = "(string \<times> Product) list"

fun add_product :: "StoreMap \<Rightarrow> string \<Rightarrow> string \<Rightarrow> pos \<Rightarrow> int \<Rightarrow> StoreMap" where
  "add_product [] u n ps lvl = [(u, \<lparr>uid = u, name = n, position = ps, shelf_level = lvl\<rparr>)]"
| "add_product (e # es) u n ps lvl =
     (if fst e = u then (u, \<lparr>uid = u, name = n, position = ps, shelf_level = lvl\<rparr>) # es
      else e # add_product es u n ps lvl)"

text \<open>\<^verbatim>\<open>StoreMap.find_by_name\<close> (lines 440-444): the loop returns at the first hit.\<close>

fun find_by_name_in :: "Product list \<Rightarrow> string \<Rightarrow> Product option" where
  "find_by_name_in [] nm = None"
| "find_by_name_in (p # ps) nm =
     (if lower (name p) = lower nm then Some p else find_by_name_in ps nm)"

definition find_by_name :: "StoreMap \<Rightarrow> string \<Rightarrow> Product option" where
  "find_by_name self nm = find_by_name_in (map snd self) nm"

text \<open>\<^verbatim>\<open>StoreMap.nearest_product_tag\<close> (lines 446-454); \<^verbatim>\<open>list.sort\<close> is stable.\<close>

definition nearest_product_tag :: "StoreMap \<Rightarrow> pos \<Rightarrow> real \<Rightarrow> (Product \<times> real) list" where
  "nearest_product_tag self estimated_pos radius =
     sort_key snd
       (filter (\<lambda>(p, d). d \<le> radius)
          (map (\<lambda>(u, p). (p, distance estimated_pos (position p))) self))"

record RFIDReader =
  store_map :: StoreMap
  range_meters :: real
  noise_prob :: real

text \<open>
  \<^verbatim>\<open>RFIDReader.scan\<close> (lines 464-471). The values that the successive calls of
  \<^verbatim>\<open>random.random()\<close> return are the sequence \<open>rnd\<close>, of which \<open>k\<close> have been
  consumed; the call is made only for a product in range (\<^verbatim>\<open>and\<close> is lazy).
\<close>

fun scan_items ::
  "real \<Rightarrow> real \<Rightarrow> pos \<Rightarrow> (nat \<Rightarrow> real) \<Rightarrow> nat \<Rightarrow> StoreMap \<Rightarrow> (string \<times> real) list \<times> nat" where
  "scan_items rng noise ps rnd k [] = ([], k)"
| "scan_items rng noise ps rnd k (e # es) =
     (let d = distance ps (position (snd e))
      in if d \<le> rng then
           (if noise < rnd k then
              (let (found, k') = scan_items rng noise ps rnd (Suc k) es
               in ((fst e, d) # found, k'))
            else scan_items rng noise ps rnd (Suc k) es)
         else scan_items rng noise ps rnd k es)"

definition scan :: "RFIDReader \<Rightarrow> pos \<Rightarrow> (nat \<Rightarrow> real) \<Rightarrow> nat \<Rightarrow> (string \<times> real) list \<times> nat" where
  "scan self ps rnd k = scan_items (range_meters self) (noise_prob self) ps rnd k (store_map self)"

section \<open>Agent\<close>

text \<open>
  \<^verbatim>\<open>AgentAI.plan_route\<close> (lines 519-537). The lines that \<^verbatim>\<open>print\<close> writes are the
  second component of the result.
\<close>

definition aviso :: "string \<Rightarrow> string" where
  "aviso it =
     ''Aviso: produto '' @ [CHR 0x27] @ it @ [CHR 0x27] @ '' n'' @ [CHR 0xE3]
       @ ''o encontrado na base de dados''"

fun found_loop ::
  "StoreMap \<Rightarrow> string list \<Rightarrow> Product list \<Rightarrow> string list \<Rightarrow> Product list \<times> string list" where
  "found_loop store [] found out = (found, out)"
| "found_loop store (it # items) found out =
     (case find_by_name store it of
        Some p \<Rightarrow> found_loop store items (found @ [p]) out
      | None \<Rightarrow> found_loop store items found (out @ [aviso it]))"

fun route_loop :: "pos \<Rightarrow> Product list \<Rightarrow> py_error + (Product \<times> int) list" where
  "route_loop prev [] = Inr []"
| "route_loop prev (p # ps) =
     (case meters_to_steps (distance prev (position p)) (3/4) of
        Inl e \<Rightarrow> Inl e
      | Inr n \<Rightarrow>
          (case route_loop (position p) ps of
             Inl e \<Rightarrow> Inl e
           | Inr route \<Rightarrow> Inr ((p, n) # route)))"

definition plan_route ::
  "StoreMap \<Rightarrow> pos \<Rightarrow> string list \<Rightarrow> (py_error + (Product \<times> int) list) \<times> string list" where
  "plan_route store current_pos items =
     (let (found, out) = found_loop store items [] [];
          found' = sort_key (\<lambda>p. distance current_pos (position p)) found
      in (route_loop current_pos found', out))"

section \<open>The route sequencer of the specification\<close>

text \<open>
  Section 4.4 of the specification in its own words, to be compared with the loop of
  the source. The input is a starting position and a collection of products; every input
  product is visited exactly once. Among the unvisited products, select the one with
  minimum Euclidean distance to the current position, the first one in the input order
  on a tie; append it, mark it visited (it alone leaves the unvisited ones), make its
  position the current position, and repeat until all are visited.
\<close>

definition nearest :: "('a \<Rightarrow> pos) \<Rightarrow> pos \<Rightarrow> 'a list \<Rightarrow> 'a option" where
  "nearest coord cur ps =
     find (\<lambda>p. \<forall>q\<in>set ps. distance cur (coord p) \<le> distance cur (coord q)) ps"

function greedy_nn :: "('a \<Rightarrow> pos) \<Rightarrow> pos \<Rightarrow> 'a list \<Rightarrow> 'a list" where
  "greedy_nn coord cur unvisited =
     (case nearest coord cur unvisited of
        None \<Rightarrow> []
      | Some m \<Rightarrow> m # greedy_nn coord (coord m) (remove1 m unvisited))"
  by pat_completeness auto
termination
proof (relation "measure (\<lambda>(coord, cur, unvisited). length unvisited)", goal_cases)
  case 1
  show ?case by simp
next
  case (2 coord cur unvisited m)
  then have "m \<in> set unvisited"
    by (auto simp: nearest_def find_Some_iff)
  then have "length (remove1 m unvisited) < length unvisited"
    using length_pos_if_in_set [of m unvisited] by (simp add: length_remove1)
  then show ?case by simp
qed

declare nn_loop.simps [simp del] greedy_nn.simps [simp del]

section \<open>Example data\<close>

text \<open>A catalogue file, a store map and list files on which the results below are evaluated.\<close>

definition prod_ex :: "string \<Rightarrow> real \<Rightarrow> real \<Rightarrow> produto_json" where
  "prod_ex n x y =
     \<lparr>nome_produto = n, corredor = ''1'', seccao = ''A'', prateleira = ''2'', caixa = ''3'',
      coordenada_x = x, coordenada_y = y\<rparr>"

definition catalogo_ex :: "produto_json list" where
  "catalogo_ex = [prod_ex ''Leite Magro'' 2 1, prod_ex ''Leite de Soja'' 5 1, prod_ex ''Atum'' 3 4]"

definition loja_ex :: StoreMap where
  "loja_ex =
     add_product (add_product (add_product [] ''u1'' ''Leite Magro'' (2, 1) 0)
       ''u2'' ''Leite de Soja'' (5, 1) 1) ''u3'' ''Atum'' (3, 4) 0"

definition fs_ex :: "string list \<Rightarrow> ficheiros" where
  "fs_ex lista = \<lparr>lista_compras = Some lista, localizacoes = Some catalogo_ex\<rparr>"

definition loja_linha :: StoreMap where
  "loja_linha =
     add_product (add_product (add_product [] ''a'' ''arroz'' (3, 0) 0)
       ''b'' ''bolo'' (- 4, 0) 0) ''c'' ''cha'' (7, 0) 0"

definition p_atum :: resultado where "p_atum = localizado (prod_ex ''Atum'' 3 4)"
definition p_magro :: resultado where "p_magro = localizado (prod_ex ''Leite Magro'' 2 1)"
definition p_soja :: resultado where "p_soja = localizado (prod_ex ''Leite de Soja'' 5 1)"

definition rnd_meio :: "nat \<Rightarrow> real" where "rnd_meio i = 1/2"
definition rnd_zero :: "nat \<Rightarrow> real" where "rnd_zero i = 0"
definition leitor_ex :: "real \<Rightarrow> RFIDReader" where
  "leitor_ex noise = \<lparr>store_map = loja_ex, range_meters = 10, noise_prob = noise\<rparr>"

text \<open>A catalogue in which two different products share the name "Leite".\<close>

definition catalogo_nomes :: "produto_json list" where
  "catalogo_nomes = [prod_ex ''Leite'' 0 0, prod_ex ''Leite'' 9 9, prod_ex ''Atum'' 1 1]"

definition fs_nomes :: "string list \<Rightarrow> ficheiros" where
  "fs_nomes lista = \<lparr>lista_compras = Some lista, localizacoes = Some catalogo_nomes\<rparr>"

section \<open>Saving the shopping list\<close>

lemma of_char_lower_char:
  "(of_char (lower_char c) :: nat) =
     (let n = of_char c in if (65 \<le> n \<and> n \<le> 90) \<or> (192 \<le> n \<and> n \<le> 222 \<and> n \<noteq> 215) then n + 32 else n)"
  by (auto simp: lower_char_def Let_def)

lemma lower_char_idem: "lower_char (lower_char c) = lower_char c"
proof -
  have "(of_char (lower_char (lower_char c)) :: nat) = of_char (lower_char c)"
    by (simp add: of_char_lower_char Let_def)
  then show ?thesis by simp
qed

lemma lower_idem: "lower (lower s) = lower s"
  by (simp add: lower_def lower_char_idem)

lemma isspace_lower_char: "isspace (lower_char c) = isspace c"
  by (auto simp add: isspace_def of_char_lower_char Let_def)

lemma lower_char_eq_comma: "lower_char c = CHR '','' \<longleftrightarrow> c = CHR '',''"
proof
  assume "lower_char c = CHR '',''"
  then have "(of_char (lower_char c) :: nat) = 44" by simp
  then have "(of_char c :: nat) = 44" by (auto simp: of_char_lower_char Let_def split: if_splits)
  then have "(of_char c :: nat) = of_char (CHR '','')" by simp
  then show "c = CHR '',''" by (simp only: of_char_eq_iff)
next
  assume "c = CHR '',''" then show "lower_char c = CHR '',''" by (simp add: lower_char_def)
qed

lemma split_from_items:
  "\<forall>c\<in>set cur. \<not> isspace c \<Longrightarrow> w \<in> set (split_from cur s) \<Longrightarrow>
     w \<noteq> [] \<and> (\<forall>c\<in>set w. \<not> isspace c) \<and> set w \<subseteq> set cur \<union> set s"
proof (induction cur s rule: split_from.induct)
  case (1 cur)
  then show ?case by (auto split: if_splits)
next
  case (2 cur c cs)
  then show ?case by (fastforce split: if_splits)
qed

lemma strip_no_space: "\<forall>c\<in>set w. \<not> isspace c \<Longrightarrow> strip w = w"
proof -
  assume a: "\<forall>c\<in>set w. \<not> isspace c"
  then have "dropWhile isspace w = w" by (cases w) auto
  moreover from a have "dropWhile isspace (rev w) = rev w" by (cases "rev w") (auto simp: dropWhile_eq_self_iff)
  ultimately show ?thesis by (simp add: strip_def)
qed


lemma split_from_word:
  "\<forall>c\<in>set w. \<not> isspace c \<Longrightarrow> split_from cur (w @ s) = split_from (cur @ w) s"
  by (induction w arbitrary: cur) auto

lemma split_word:
  "w \<noteq> [] \<Longrightarrow> \<forall>c\<in>set w. \<not> isspace c \<Longrightarrow> isspace sp \<Longrightarrow> split (w @ sp # s) = w # split s"
  by (simp add: split_def split_from_word)

lemma split_space: "isspace sp \<Longrightarrow> split (sp # s) = split s"
  by (simp add: split_def)

lemma split_last: "w \<noteq> [] \<Longrightarrow> \<forall>c\<in>set w. \<not> isspace c \<Longrightarrow> split w = [w]"
  using split_from_word [of w "[]" "[]"] by (simp add: split_def)

lemma itens_da_lista_eq: "itens_da_lista itens = map lower (split (replace_comma itens))"
proof -
  have "\<forall>w\<in>set (split (replace_comma itens)). strip w = w \<and> w \<noteq> []"
    using split_from_items [of "[]" _ "replace_comma itens"]
    by (auto simp: split_def strip_no_space)
  then show ?thesis
    unfolding itens_da_lista_def
    by (simp add: filter_id_conv cong: map_cong)
qed


text \<open>
  Claim C10. For every non-blank input text, saving the list splits the text on commas
  and on every run of whitespace: the stored list is the list of the lower-cased words
  of the text with its commas replaced by spaces, so no stored item contains a space, a
  comma or any other whitespace character, and each item is non-empty and lower-cased.
  A name of two words such as "leite magro" is stored as the two items "leite" and
  "magro", and no stored item can be a query of several words.
\<close>

theorem guardar_lista_compras_splits:
  assumes "strip itens \<noteq> []"
  shows "guardar_lista_compras itens fs =
           (Inr (map lower (split (replace_comma itens))),
            fs\<lparr>lista_compras := Some (map lower (split (replace_comma itens)))\<rparr>)
         \<and> (\<forall>item\<in>set (map lower (split (replace_comma itens))).
               item \<noteq> [] \<and> CHR '' '' \<notin> set item \<and> CHR '','' \<notin> set item
               \<and> (\<forall>c\<in>set item. \<not> isspace c) \<and> lower item = item)"
proof (rule conjI [OF _ ballI])
  show "guardar_lista_compras itens fs =
           (Inr (map lower (split (replace_comma itens))),
            fs\<lparr>lista_compras := Some (map lower (split (replace_comma itens)))\<rparr>)"
    using assms by (simp add: guardar_lista_compras_def itens_da_lista_eq Let_def)
next
  fix item assume "item \<in> set (map lower (split (replace_comma itens)))"
  then obtain w where w: "w \<in> set (split_from [] (replace_comma itens))" and item: "item = lower w"
    by (auto simp: split_def)
  from split_from_items [OF _ w]
  have w1: "w \<noteq> []" and w2: "\<forall>c\<in>set w. \<not> isspace c" and w3: "set w \<subseteq> set (replace_comma itens)"
    by simp_all
  have sp: "\<forall>c\<in>set item. \<not> isspace c"
    using w2 by (simp add: item lower_def isspace_lower_char)
  have "isspace (CHR '' '')" by (simp add: isspace_def)
  with sp have nospace: "CHR '' '' \<notin> set item" by blast
  have "CHR '','' \<notin> set (replace_comma itens)"
    by (auto simp: replace_comma_def)
  with w3 have "CHR '','' \<notin> set w" by blast
  then have "lower_char c \<noteq> CHR '',''" if "c \<in> set w" for c
    using that lower_char_eq_comma by metis
  then have nocomma: "CHR '','' \<notin> set item"
    unfolding item lower_def by (metis imageE list.set_map)
  have ne: "item \<noteq> []"
    using w1 by (simp add: item lower_def)
  show "item \<noteq> [] \<and> CHR '' '' \<notin> set item \<and> CHR '','' \<notin> set item
               \<and> (\<forall>c\<in>set item. \<not> isspace c) \<and> lower item = item"
    using ne sp nospace nocomma lower_idem [of w] by (simp add: item)
qed

theorem guardar_lista_compras_splits_witness:
  "strip ''leite magro'' \<noteq> []
   \<and> guardar_lista_compras ''leite magro'' \<lparr>lista_compras = None, localizacoes = None\<rparr>
       = (Inr [''leite'', ''magro''], \<lparr>lista_compras = Some [''leite'', ''magro''], localizacoes = None\<rparr>)
   \<and> guardar_lista_compras ''Leite Magro,Atum'' \<lparr>lista_compras = None, localizacoes = None\<rparr>
       = (Inr [''leite'', ''magro'', ''atum''],
          \<lparr>lista_compras = Some [''leite'', ''magro'', ''atum''], localizacoes = None\<rparr>)"
proof -
  have a: "strip ''leite magro'' \<noteq> []" and b: "strip ''Leite Magro,Atum'' \<noteq> []"
    by (simp_all add: strip_def isspace_def)
  have c: "map lower (split (replace_comma ''leite magro'')) = [''leite'', ''magro'']"
    and d: "map lower (split (replace_comma ''Leite Magro,Atum'')) = [''leite'', ''magro'', ''atum'']"
    by code_simp+
  show ?thesis
    using a guardar_lista_compras_splits [OF a, of "\<lparr>lista_compras = None, localizacoes = None\<rparr>"]
      guardar_lista_compras_splits [OF b, of "\<lparr>lista_compras = None, localizacoes = None\<rparr>"]
    by (simp add: c d)
qed


section \<open>Step counts\<close>


lemma py_round_nearest:
  "\<bar>of_int (py_round x) - x\<bar> \<le> 1/2 \<and> (\<bar>of_int (py_round x) - x\<bar> = 1/2 \<longrightarrow> even (py_round x))"
  unfolding py_round_def Let_def
  by (auto; linarith)



section \<open>Direction labels\<close>

text \<open>The angle of \<^verbatim>\<open>atan2\<close> is the polar angle of the vector.\<close>

lemma polar_arctan:
  assumes "x \<noteq> 0"
  shows "sqrt (x\<^sup>2 + y\<^sup>2) * cos (arctan (y / x)) = \<bar>x\<bar>"
    and "sqrt (x\<^sup>2 + y\<^sup>2) * sin (arctan (y / x)) = \<bar>x\<bar> * (y / x)"
proof -
  have pos: "0 < 1 + (y / x)\<^sup>2"
    by (simp add: add_pos_nonneg)
  have "x\<^sup>2 + y\<^sup>2 = x\<^sup>2 * (1 + (y / x)\<^sup>2)"
    using assms by (simp add: field_simps)
  then have r: "sqrt (x\<^sup>2 + y\<^sup>2) = \<bar>x\<bar> * sqrt (1 + (y / x)\<^sup>2)"
    by (simp add: real_sqrt_mult)
  have s: "sqrt (1 + (y / x)\<^sup>2) \<noteq> 0"
    using pos by simp
  show "sqrt (x\<^sup>2 + y\<^sup>2) * cos (arctan (y / x)) = \<bar>x\<bar>"
    unfolding r cos_arctan using s by simp
  show "sqrt (x\<^sup>2 + y\<^sup>2) * sin (arctan (y / x)) = \<bar>x\<bar> * (y / x)"
    unfolding r sin_arctan using s by simp
qed

lemma atan2_polar:
  "x = sqrt (x\<^sup>2 + y\<^sup>2) * cos (atan2 y x) \<and> y = sqrt (x\<^sup>2 + y\<^sup>2) * sin (atan2 y x)"
proof -
  consider "0 < x" | "x < 0" | "x = 0"
    by linarith
  then show ?thesis
  proof cases
    case 1
    then show ?thesis
      using polar_arctan [of x y] by (simp add: atan2_def)
  next
    case 2
    then show ?thesis
      using polar_arctan [of x y] by (simp add: atan2_def)
  next
    case 3
    then show ?thesis
      by (simp add: atan2_def)
  qed
qed

lemma atan2_range: "- pi < atan2 y x \<and> atan2 y x \<le> pi"
proof -
  have b: "- (pi / 2) < arctan (y / x)" "arctan (y / x) < pi / 2"
    by (rule arctan_lbound, rule arctan_ubound)
  have p: "0 < pi" by simp
  consider "0 < x" | "x < 0" "0 \<le> y" | "x < 0" "y < 0" | "x = 0"
    by linarith
  then show ?thesis
  proof cases
    case 1
    then show ?thesis using b p by (simp add: atan2_def)
  next
    case 2
    then have "y / x \<le> 0" by (simp add: divide_nonneg_neg)
    then have "arctan (y / x) \<le> 0" using arctan_le_iff [of "y / x" 0] by simp
    then show ?thesis using 2 b p by (simp add: atan2_def)
  next
    case 3
    then have "0 < y / x" by (simp add: divide_neg_neg)
    then have "0 < arctan (y / x)" using arctan_less_iff [of 0 "y / x"] by simp
    then show ?thesis using 3 b p by (simp add: atan2_def)
  next
    case 4
    then show ?thesis using p by (auto simp: atan2_def; linarith)
  qed
qed

lemma degrees_le_iff: "degrees a \<le> d \<longleftrightarrow> a \<le> d * pi / 180"
  by (simp add: degrees_def field_simps)

lemma degrees_less_iff: "degrees a < d \<longleftrightarrow> a < d * pi / 180"
  by (simp add: degrees_def field_simps)

lemma le_degrees_iff: "d \<le> degrees a \<longleftrightarrow> d * pi / 180 \<le> a"
  by (simp add: degrees_def field_simps)

lemma less_degrees_iff: "d < degrees a \<longleftrightarrow> d * pi / 180 < a"
  by (simp add: degrees_def field_simps)

lemma degrees_atan2_range: "- 180 < degrees (atan2 y x) \<and> degrees (atan2 y x) \<le> 180"
  using atan2_range [of y x] by (simp add: less_degrees_iff degrees_le_iff)


lemma direcao_visual_sectors:
  assumes "- 180 < a" and "a \<le> 180"
  shows "(direcao_visual a = ''siga em frente'' \<longleftrightarrow> - 45 \<le> a \<and> a \<le> 45)
       \<and> (direcao_visual a = ''vire '' @ [CHR 0xE0] @ '' esquerda'' \<longleftrightarrow> 45 < a \<and> a \<le> 135)
       \<and> (direcao_visual a = ''vire '' @ [CHR 0xE0] @ '' direita'' \<longleftrightarrow> - 135 \<le> a \<and> a < - 45)
       \<and> (direcao_visual a = ''inverta a dire'' @ [CHR 0xE7, CHR 0xE3] @ ''o'' \<longleftrightarrow> 135 < a \<or> a < - 135)"
  using assms by (simp add: direcao_visual_def) linarith

lemma instrucoes_de_nth:
  "Suc i < length rota \<Longrightarrow>
   instrucoes_de rota ! i =
     (direcao_visual (degrees (atan2 (coordenada_y (rota ! Suc i) - coordenada_y (rota ! i))
                                     (coordenada_x (rota ! Suc i) - coordenada_x (rota ! i)))),
      sqrt ((coordenada_x (rota ! Suc i) - coordenada_x (rota ! i))\<^sup>2
            + (coordenada_y (rota ! Suc i) - coordenada_y (rota ! i))\<^sup>2),
      nome_produto (rota ! Suc i))"
proof (induction rota arbitrary: i rule: instrucoes_de.induct)
  case (1 a b rota)
  show ?case
  proof (cases i)
    case 0
    then show ?thesis by (simp add: Let_def)
  next
    case (Suc j)
    with "1.prems" have "Suc j < length (b # rota)" by simp
    from "1.IH" [OF refl refl refl refl this] show ?thesis
      using Suc by (simp add: Let_def)
  qed
qed simp_all

text \<open>
  Claim C7, as stated, fails for the classification written inline in
  \<^verbatim>\<open>mostrar_rota_visual\<close> (lines 206-216), which has no near-zero case. Between two
  stops at (1, 1) and (1, 1.2) the vector is (0, 0.2), both components below 0.3, and
  the instruction carries the label of the sector centred on 90 degrees, the same label
  as for the vector (0, 4); \<^verbatim>\<open>direction_from_vector\<close> gives "em frente" for the same
  vector.
\<close>

theorem inline_direction_counterexample:
  "\<bar>0 :: real\<bar> < 3/10 \<and> \<bar>6/5 - 1 :: real\<bar> < 3/10
   \<and> instrucoes_de [prod_ex ''a'' 1 1, prod_ex ''b'' 1 (6/5)]
       = [(''vire '' @ [CHR 0xE0] @ '' esquerda'', 1/5, ''b'')]
   \<and> instrucoes_de [prod_ex ''a'' 1 1, prod_ex ''b'' 1 5]
       = [(''vire '' @ [CHR 0xE0] @ '' esquerda'', 4, ''b'')]
   \<and> direction_from_vector 0 (6/5 - 1) = ''em frente''"
proof -
  have s: "sqrt ((1/5)\<^sup>2) = (1/5 :: real)" "sqrt (4\<^sup>2) = (4 :: real)"
    by (simp_all only: real_sqrt_abs)
  have a: "instrucoes_de [prod_ex ''a'' 1 1, prod_ex ''b'' 1 (6/5)]
       = [(''vire '' @ [CHR 0xE0] @ '' esquerda'', 1/5, ''b'')]"
    using s(1) by (simp add: prod_ex_def direcao_visual_def atan2_def degrees_def power2_eq_square)
  have b: "instrucoes_de [prod_ex ''a'' 1 1, prod_ex ''b'' 1 5]
       = [(''vire '' @ [CHR 0xE0] @ '' esquerda'', 4, ''b'')]"
    using s(2) by (simp add: prod_ex_def direcao_visual_def atan2_def degrees_def power2_eq_square)
  have c: "direction_from_vector 0 (6/5 - 1) = ''em frente''"
    by (simp add: direction_from_vector_def)
  show ?thesis using a b c by simp
qed

text \<open>
  Claim C7, amended. For every vector \<open>(dx, dy)\<close>, \<^verbatim>\<open>direction_from_vector\<close> first maps
  a near-zero vector (both components below 0.3 in absolute value) to the label
  "em frente", which is none of the four sector labels, before any angle is computed;
  otherwise the angle \<open>atan2 dy dx\<close> in degrees lies in \<open>(-180, 180]\<close> and is
  classified into exactly four sectors of 90 degrees, without overlap: \<open>[-45, 45]\<close>
  (centred on 0) is "direita", \<open>(45, 135]\<close> (centred on 90) is "frente",
  above 135 or below -135 (centred on 180/-180) is "esquerda", and \<open>[-135, -45)\<close>
  (centred on -90) is "tras". The classification written inline in
  \<^verbatim>\<open>mostrar_rota_visual\<close> has no near-zero case: the label of every instruction is
  that of the angle of the vector between the two stops, classified into the same four
  sectors with the same boundaries (\<open>[-45, 45]\<close> "siga em frente", \<open>(45, 135]\<close>
  "vire a esquerda", \<open>[-135, -45)\<close> "vire a direita", the rest "inverta a direcao",
  with the accents of the source).
\<close>

theorem direction_sectors:
  "(\<bar>dx\<bar> < 3/10 \<and> \<bar>dy\<bar> < 3/10 \<longrightarrow> direction_from_vector dx dy = ''em frente'')
   \<and> (\<not> (\<bar>dx\<bar> < 3/10 \<and> \<bar>dy\<bar> < 3/10) \<longrightarrow>
        - 180 < degrees (atan2 dy dx) \<and> degrees (atan2 dy dx) \<le> 180
        \<and> (direction_from_vector dx dy = ''direita''
             \<longleftrightarrow> - 45 \<le> degrees (atan2 dy dx) \<and> degrees (atan2 dy dx) \<le> 45)
        \<and> (direction_from_vector dx dy = ''frente''
             \<longleftrightarrow> 45 < degrees (atan2 dy dx) \<and> degrees (atan2 dy dx) \<le> 135)
        \<and> (direction_from_vector dx dy = ''esquerda''
             \<longleftrightarrow> 135 < degrees (atan2 dy dx) \<or> degrees (atan2 dy dx) < - 135)
        \<and> (direction_from_vector dx dy = ''tras''
             \<longleftrightarrow> - 135 \<le> degrees (atan2 dy dx) \<and> degrees (atan2 dy dx) < - 45)
        \<and> direction_from_vector dx dy \<noteq> ''em frente'')
   \<and> (\<forall>i. Suc i < length rota \<longrightarrow>
         fst (instrucoes_de rota ! i)
           = direcao_visual
               (degrees (atan2 (coordenada_y (rota ! Suc i) - coordenada_y (rota ! i))
                               (coordenada_x (rota ! Suc i) - coordenada_x (rota ! i)))))
   \<and> - 180 < degrees (atan2 dy dx) \<and> degrees (atan2 dy dx) \<le> 180
   \<and> (direcao_visual (degrees (atan2 dy dx)) = ''siga em frente''
        \<longleftrightarrow> - 45 \<le> degrees (atan2 dy dx) \<and> degrees (atan2 dy dx) \<le> 45)
   \<and> (direcao_visual (degrees (atan2 dy dx)) = ''vire '' @ [CHR 0xE0] @ '' esquerda''
        \<longleftrightarrow> 45 < degrees (atan2 dy dx) \<and> degrees (atan2 dy dx) \<le> 135)
   \<and> (direcao_visual (degrees (atan2 dy dx)) = ''vire '' @ [CHR 0xE0] @ '' direita''
        \<longleftrightarrow> - 135 \<le> degrees (atan2 dy dx) \<and> degrees (atan2 dy dx) < - 45)
   \<and> (direcao_visual (degrees (atan2 dy dx)) = ''inverta a dire'' @ [CHR 0xE7, CHR 0xE3] @ ''o''
        \<longleftrightarrow> 135 < degrees (atan2 dy dx) \<or> degrees (atan2 dy dx) < - 135)"
proof -
  have r: "- 180 < degrees (atan2 dy dx) \<and> degrees (atan2 dy dx) \<le> 180"
    by (rule degrees_atan2_range)
  have a: "(\<bar>dx\<bar> < 3/10 \<and> \<bar>dy\<bar> < 3/10 \<longrightarrow> direction_from_vector dx dy = ''em frente'')
   \<and> (\<not> (\<bar>dx\<bar> < 3/10 \<and> \<bar>dy\<bar> < 3/10) \<longrightarrow>
        - 180 < degrees (atan2 dy dx) \<and> degrees (atan2 dy dx) \<le> 180
        \<and> (direction_from_vector dx dy = ''direita''
             \<longleftrightarrow> - 45 \<le> degrees (atan2 dy dx) \<and> degrees (atan2 dy dx) \<le> 45)
        \<and> (direction_from_vector dx dy = ''frente''
             \<longleftrightarrow> 45 < degrees (atan2 dy dx) \<and> degrees (atan2 dy dx) \<le> 135)
        \<and> (direction_from_vector dx dy = ''esquerda''
             \<longleftrightarrow> 135 < degrees (atan2 dy dx) \<or> degrees (atan2 dy dx) < - 135)
        \<and> (direction_from_vector dx dy = ''tras''
             \<longleftrightarrow> - 135 \<le> degrees (atan2 dy dx) \<and> degrees (atan2 dy dx) < - 45)
        \<and> direction_from_vector dx dy \<noteq> ''em frente'')"
    using r by (simp add: direction_from_vector_def Let_def)
  have b: "\<forall>i. Suc i < length rota \<longrightarrow>
         fst (instrucoes_de rota ! i)
           = direcao_visual
               (degrees (atan2 (coordenada_y (rota ! Suc i) - coordenada_y (rota ! i))
                               (coordenada_x (rota ! Suc i) - coordenada_x (rota ! i))))"
    by (simp add: instrucoes_de_nth)
  note c = direcao_visual_sectors [OF r [THEN conjunct1] r [THEN conjunct2]]
  show ?thesis
    using a b r c by blast
qed

theorem direction_sectors_witness:
  "direction_from_vector (1/10) (- 2/10) = ''em frente''
   \<and> degrees (atan2 0 3) = 0 \<and> direction_from_vector 3 0 = ''direita''
   \<and> degrees (atan2 4 0) = 90 \<and> direction_from_vector 0 4 = ''frente''
   \<and> degrees (atan2 0 (- 3)) = 180 \<and> direction_from_vector (- 3) 0 = ''esquerda''
   \<and> degrees (atan2 (- 4) 0) = - 90 \<and> direction_from_vector 0 (- 4) = ''tras''
   \<and> degrees (atan2 1 1) = 45 \<and> direction_from_vector 1 1 = ''direita''
   \<and> degrees (atan2 (- 1) (- 1)) = - 135 \<and> direction_from_vector (- 1) (- 1) = ''tras''
   \<and> fst (instrucoes_de [prod_ex ''a'' 1 1, prod_ex ''b'' 1 5] ! 0)
       = ''vire '' @ [CHR 0xE0] @ '' esquerda''
   \<and> direcao_visual (degrees (atan2 0 3)) = ''siga em frente''
   \<and> direcao_visual (degrees (atan2 (- 4) 0)) = ''vire '' @ [CHR 0xE0] @ '' direita''
   \<and> direcao_visual (degrees (atan2 0 (- 3))) = ''inverta a dire'' @ [CHR 0xE7, CHR 0xE3] @ ''o''"
proof -
  have a: "degrees (atan2 0 3) = 0" "degrees (atan2 4 0) = 90" "degrees (atan2 0 (- 3)) = 180"
    "degrees (atan2 (- 4) 0) = - 90" "degrees (atan2 1 1) = 45"
    "degrees (atan2 (- 1) (- 1)) = - 135"
    by (simp_all add: atan2_def degrees_def arctan_one)
  have "Suc 0 < length [prod_ex ''a'' 1 1, prod_ex ''b'' 1 5]" by simp
  from direction_sectors [of 0 4 "[prod_ex ''a'' 1 1, prod_ex ''b'' 1 5]", THEN conjunct2,
      THEN conjunct2, THEN conjunct1, rule_format, OF this]
  have i: "fst (instrucoes_de [prod_ex ''a'' 1 1, prod_ex ''b'' 1 5] ! 0)
       = ''vire '' @ [CHR 0xE0] @ '' esquerda''"
    by (simp add: prod_ex_def a direcao_visual_def)
  show ?thesis
    using direction_sectors [of "1/10" "- 2/10" "[]"]
      direction_sectors [of 3 0 "[]"] direction_sectors [of 0 4 "[]"]
      direction_sectors [of "- 3" 0 "[]"] direction_sectors [of 0 "- 4" "[]"]
      direction_sectors [of 1 1 "[]"] direction_sectors [of "- 1" "- 1" "[]"] i
    by (simp add: a)
qed

section \<open>Shelf confirmation\<close>

text \<open>
  Claim C9. For every product, device position and device height, the sweep returns true
  exactly when the Euclidean distance from the product's position to the device position
  is at most the sensitivity and the device height equals the product's shelf level. In
  particular a height mismatch gives false even at the exact position, and a distance
  above the sensitivity gives false even when the height matches. The result is a pure
  function of the device, the product, the position and the height.
\<close>

theorem sweep_iff:
  "sweep self product device_pos device_height =
     (sqrt ((fst (position product) - fst device_pos)\<^sup>2
            + (snd (position product) - snd device_pos)\<^sup>2) \<le> sensitivity self
      \<and> device_height = shelf_level product)
   \<and> (device_height \<noteq> shelf_level product
        \<longrightarrow> \<not> sweep self product (position product) device_height)
   \<and> (sensitivity self < distance (position product) device_pos
        \<longrightarrow> \<not> sweep self product device_pos (shelf_level product))"
  by (auto simp: sweep_def distance_def Let_def)

theorem sweep_iff_witness:
  "sweep \<lparr>sensitivity = 1/2\<rparr> \<lparr>uid = ''u1'', name = ''leite'', position = (2, 1), shelf_level = 1\<rparr> (2, 1) 1
   \<and> \<not> sweep \<lparr>sensitivity = 1/2\<rparr> \<lparr>uid = ''u1'', name = ''leite'', position = (2, 1), shelf_level = 1\<rparr> (2, 1) 2
   \<and> \<not> sweep \<lparr>sensitivity = 1/2\<rparr> \<lparr>uid = ''u1'', name = ''leite'', position = (2, 1), shelf_level = 1\<rparr> (3, 1) 1"
  using sweep_iff [of "\<lparr>sensitivity = 1/2\<rparr>"
      "\<lparr>uid = ''u1'', name = ''leite'', position = (2, 1), shelf_level = 1\<rparr>" "(2, 1)" 1]
    sweep_iff [of "\<lparr>sensitivity = 1/2\<rparr>"
      "\<lparr>uid = ''u1'', name = ''leite'', position = (2, 1), shelf_level = 1\<rparr>" "(2, 1)" 2]
    sweep_iff [of "\<lparr>sensitivity = 1/2\<rparr>"
      "\<lparr>uid = ''u1'', name = ''leite'', position = (2, 1), shelf_level = 1\<rparr>" "(3, 1)" 1]
  by simp

section \<open>Evaluation of the examples\<close>

lemma loja_ex_eq:
  "loja_ex =
     [(''u1'', \<lparr>uid = ''u1'', name = ''Leite Magro'', position = (2, 1), shelf_level = 0\<rparr>),
      (''u2'', \<lparr>uid = ''u2'', name = ''Leite de Soja'', position = (5, 1), shelf_level = 1\<rparr>),
      (''u3'', \<lparr>uid = ''u3'', name = ''Atum'', position = (3, 4), shelf_level = 0\<rparr>)]"
  by (simp add: loja_ex_def)

lemma lower_ex:
  "lower ''Leite Magro'' = ''leite magro''" "lower ''Leite de Soja'' = ''leite de soja''"
  "lower ''Atum'' = ''atum''" "lower ''leite'' = ''leite''" "lower ''ATUM'' = ''atum''"
  "lower ''sal'' = ''sal''" "lower ''atum'' = ''atum''"
  by code_simp+

lemma correspondencias_ex:
  "correspondencias ''leite'' catalogo_ex = [prod_ex ''Leite Magro'' 2 1, prod_ex ''Leite de Soja'' 5 1]"
  "correspondencias ''atum'' catalogo_ex = [prod_ex ''Atum'' 3 4]"
  "correspondencias ''sal'' catalogo_ex = []"
  by (simp_all add: correspondencias_def catalogo_ex_def prod_ex_def lower_ex)

lemma find_by_name_ex:
  "find_by_name loja_ex ''sal'' = None"
  "find_by_name loja_ex ''leite'' = None"
  "find_by_name loja_ex ''ATUM'' = Some \<lparr>uid = ''u3'', name = ''Atum'', position = (3, 4), shelf_level = 0\<rparr>"
  by (simp_all add: find_by_name_def loja_ex_eq lower_ex)

section \<open>Name lookup\<close>

lemma str_in_iff: "str_in a b \<longleftrightarrow> (\<exists>u v. b = u @ a @ v)"
proof (induction b)
  case Nil
  then show ?case by auto
next
  case (Cons c cs)
  show ?case
  proof
    assume "str_in a (c # cs)"
    then consider "prefix a (c # cs)" | "str_in a cs" by auto
    then show "\<exists>u v. c # cs = u @ a @ v"
    proof cases
      case 1
      then obtain v where "c # cs = a @ v" by (auto simp: prefix_def)
      then have "c # cs = [] @ a @ v" by simp
      then show ?thesis by blast
    next
      case 2
      with Cons obtain u v where "cs = u @ a @ v" by blast
      then have "c # cs = (c # u) @ a @ v" by simp
      then show ?thesis by blast
    qed
  next
    assume "\<exists>u v. c # cs = u @ a @ v"
    then obtain u v where e: "c # cs = u @ a @ v" by blast
    show "str_in a (c # cs)"
    proof (cases u)
      case Nil
      with e have "prefix a (c # cs)" by (simp add: prefix_def)
      then show ?thesis by simp
    next
      case (Cons d u')
      with e have "cs = u' @ a @ v" by simp
      with Cons.IH have "str_in a cs" by blast
      then show ?thesis by simp
    qed
  qed
qed

lemma find_by_name_in_None:
  "find_by_name_in ps nm = None \<longleftrightarrow> (\<forall>p\<in>set ps. lower (name p) \<noteq> lower nm)"
  by (induction ps) auto

lemma find_by_name_in_Some:
  "find_by_name_in ps nm = Some p \<longleftrightarrow>
     (\<exists>us vs. ps = us @ p # vs \<and> lower (name p) = lower nm
        \<and> (\<forall>q\<in>set us. lower (name q) \<noteq> lower nm))"
proof (induction ps)
  case Nil
  then show ?case by simp
next
  case (Cons q ps)
  show ?case
  proof (cases "lower (name q) = lower nm")
    case True
    have "(\<exists>us vs. q # ps = us @ p # vs \<and> lower (name p) = lower nm
        \<and> (\<forall>q\<in>set us. lower (name q) \<noteq> lower nm)) \<longleftrightarrow> q = p"
    proof
      assume "\<exists>us vs. q # ps = us @ p # vs \<and> lower (name p) = lower nm
        \<and> (\<forall>q\<in>set us. lower (name q) \<noteq> lower nm)"
      then obtain us vs where e: "q # ps = us @ p # vs"
        and n: "\<forall>q\<in>set us. lower (name q) \<noteq> lower nm" by blast
      show "q = p"
      proof (cases us)
        case Nil
        with e show ?thesis by simp
      next
        case (Cons a us')
        with e have "a = q" by simp
        with Cons n True show ?thesis by simp
      qed
    next
      assume "q = p"
      then have "q # ps = [] @ p # ps \<and> lower (name p) = lower nm
        \<and> (\<forall>q\<in>set []. lower (name q) \<noteq> lower nm)" using True by simp
      then show "\<exists>us vs. q # ps = us @ p # vs \<and> lower (name p) = lower nm
        \<and> (\<forall>q\<in>set us. lower (name q) \<noteq> lower nm)" by blast
    qed
    with True show ?thesis by simp
  next
    case False
    have "(\<exists>us vs. q # ps = us @ p # vs \<and> lower (name p) = lower nm
        \<and> (\<forall>q\<in>set us. lower (name q) \<noteq> lower nm))
      \<longleftrightarrow> (\<exists>us vs. ps = us @ p # vs \<and> lower (name p) = lower nm
        \<and> (\<forall>q\<in>set us. lower (name q) \<noteq> lower nm))"
    proof
      assume "\<exists>us vs. q # ps = us @ p # vs \<and> lower (name p) = lower nm
        \<and> (\<forall>q\<in>set us. lower (name q) \<noteq> lower nm)"
      then obtain us vs where e: "q # ps = us @ p # vs" and m: "lower (name p) = lower nm"
        and n: "\<forall>q\<in>set us. lower (name q) \<noteq> lower nm" by blast
      from e m False obtain us' where u: "us = q # us'" by (cases us) auto
      with e n have "ps = us' @ p # vs \<and> (\<forall>q\<in>set us'. lower (name q) \<noteq> lower nm)" by simp
      with m show "\<exists>us vs. ps = us @ p # vs \<and> lower (name p) = lower nm
        \<and> (\<forall>q\<in>set us. lower (name q) \<noteq> lower nm)" by blast
    next
      assume "\<exists>us vs. ps = us @ p # vs \<and> lower (name p) = lower nm
        \<and> (\<forall>q\<in>set us. lower (name q) \<noteq> lower nm)"
      then obtain us vs where e: "ps = us @ p # vs" and m: "lower (name p) = lower nm"
        and n: "\<forall>q\<in>set us. lower (name q) \<noteq> lower nm" by blast
      then have "q # ps = (q # us) @ p # vs \<and> lower (name p) = lower nm
        \<and> (\<forall>r\<in>set (q # us). lower (name r) \<noteq> lower nm)" using False by simp
      then show "\<exists>us vs. q # ps = us @ p # vs \<and> lower (name p) = lower nm
        \<and> (\<forall>q\<in>set us. lower (name q) \<noteq> lower nm)" by blast
    qed
    with False Cons.IH show ?thesis by simp
  qed
qed

lemma correspondencias_eq:
  "correspondencias item produtos =
     filter (\<lambda>p. \<exists>u v. lower (nome_produto p) = u @ lower item @ v) produtos"
  by (simp add: correspondencias_def str_in_iff)

text \<open>
  Claim C3, as stated, fails for \<^verbatim>\<open>StoreMap.find_by_name\<close>: in a store with the
  products "Leite Magro" and "Leite de Soja", both of which contain the query "leite",
  the lookup of "leite" returns \<open>None\<close>.
\<close>

theorem find_by_name_counterexample:
  "find_by_name loja_ex ''leite'' = None
   \<and> str_in (lower ''leite'') (lower ''Leite Magro'')
   \<and> str_in (lower ''leite'') (lower ''Leite de Soja'')
   \<and> (''u1'', \<lparr>uid = ''u1'', name = ''Leite Magro'', position = (2, 1), shelf_level = 0\<rparr>) \<in> set loja_ex
   \<and> (''u2'', \<lparr>uid = ''u2'', name = ''Leite de Soja'', position = (5, 1), shelf_level = 1\<rparr>) \<in> set loja_ex"
  by (simp add: loja_ex_eq find_by_name_def lower_ex)

text \<open>
  Claim C3, amended. \<^verbatim>\<open>StoreMap.find_by_name\<close> returns at most one product: the first
  product, in the insertion order of the store, whose name equals the query
  case-insensitively, and \<open>None\<close> exactly when there is none. The lookup by substring is
  the one of \<^verbatim>\<open>obter_localizacoes_lista\<close>: for every item and every catalogue it
  yields all the catalogue entries, in catalogue order, whose name contains the item as
  a case-insensitive substring, so that one item resolves to zero, one or many entries.
\<close>

theorem name_lookup:
  "(find_by_name self nm = None \<longleftrightarrow> (\<forall>e\<in>set self. lower (name (snd e)) \<noteq> lower nm))
   \<and> (\<forall>p. find_by_name self nm = Some p \<longleftrightarrow>
         (\<exists>us vs. map snd self = us @ p # vs \<and> lower (name p) = lower nm
            \<and> (\<forall>q\<in>set us. lower (name q) \<noteq> lower nm)))
   \<and> correspondencias item produtos =
       filter (\<lambda>p. \<exists>u v. lower (nome_produto p) = u @ lower item @ v) produtos"
  by (simp add: find_by_name_def find_by_name_in_None find_by_name_in_Some correspondencias_eq)

theorem name_lookup_witness:
  "find_by_name loja_ex ''sal'' = None
   \<and> find_by_name loja_ex ''ATUM''
       = Some \<lparr>uid = ''u3'', name = ''Atum'', position = (3, 4), shelf_level = 0\<rparr>
   \<and> correspondencias ''leite'' catalogo_ex = [prod_ex ''Leite Magro'' 2 1, prod_ex ''Leite de Soja'' 5 1]
   \<and> correspondencias ''atum'' catalogo_ex = [prod_ex ''Atum'' 3 4]
   \<and> correspondencias ''sal'' catalogo_ex = []"
proof -
  have a: "\<forall>e\<in>set loja_ex. lower (name (snd e)) \<noteq> lower ''sal''"
    by (simp add: loja_ex_eq lower_ex)
  have b: "map snd loja_ex =
      [\<lparr>uid = ''u1'', name = ''Leite Magro'', position = (2, 1), shelf_level = 0\<rparr>,
       \<lparr>uid = ''u2'', name = ''Leite de Soja'', position = (5, 1), shelf_level = 1\<rparr>]
      @ \<lparr>uid = ''u3'', name = ''Atum'', position = (3, 4), shelf_level = 0\<rparr> # []
    \<and> lower (name \<lparr>uid = ''u3'', name = ''Atum'', position = (3, 4), shelf_level = 0\<rparr>) = lower ''ATUM''
    \<and> (\<forall>q\<in>set [\<lparr>uid = ''u1'', name = ''Leite Magro'', position = (2, 1), shelf_level = 0\<rparr>,
       \<lparr>uid = ''u2'', name = ''Leite de Soja'', position = (5, 1), shelf_level = 1\<rparr>].
          lower (name q) \<noteq> lower ''ATUM'')"
    by (simp add: loja_ex_eq lower_ex)
  have c: "filter (\<lambda>p. \<exists>u v. lower (nome_produto p) = u @ lower ''leite'' @ v) catalogo_ex
             = [prod_ex ''Leite Magro'' 2 1, prod_ex ''Leite de Soja'' 5 1]"
    "filter (\<lambda>p. \<exists>u v. lower (nome_produto p) = u @ lower ''atum'' @ v) catalogo_ex
             = [prod_ex ''Atum'' 3 4]"
    "filter (\<lambda>p. \<exists>u v. lower (nome_produto p) = u @ lower ''sal'' @ v) catalogo_ex = []"
    by (simp_all only: str_in_iff [symmetric]) (simp_all add: catalogo_ex_def prod_ex_def lower_ex)
  have n: "find_by_name loja_ex ''sal'' = None"
    using name_lookup [of loja_ex "''sal''"] a by blast
  have s: "find_by_name loja_ex ''ATUM''
       = Some \<lparr>uid = ''u3'', name = ''Atum'', position = (3, 4), shelf_level = 0\<rparr>"
    using name_lookup [of loja_ex "''ATUM''"] b by blast
  show ?thesis
    using n s c name_lookup [of loja_ex "''sal''" "''leite''" catalogo_ex]
      name_lookup [of loja_ex "''sal''" "''atum''" catalogo_ex]
      name_lookup [of loja_ex "''sal''" "''sal''" catalogo_ex]
    by simp
qed

section \<open>Items that are not found\<close>

lemma resultados_loop_acc:
  "resultados_loop produtos acc xs = acc @ resultados_loop produtos [] xs"
proof (induction xs arbitrary: acc)
  case Nil
  then show ?case by simp
next
  case (Cons x xs)
  show ?case
    using Cons.IH [of "acc @ map localizado (correspondencias x produtos)"]
      Cons.IH [of "map localizado (correspondencias x produtos)"]
      Cons.IH [of "acc @ [NaoEncontrado x]"] Cons.IH [of "[NaoEncontrado x]"]
    by (simp add: Let_def)
qed

lemma resultados_loop_append:
  "resultados_loop produtos [] (xs @ ys)
     = resultados_loop produtos [] xs @ resultados_loop produtos [] ys"
proof (induction xs)
  case Nil
  then show ?case by simp
next
  case (Cons x xs)
  show ?case
    using Cons.IH resultados_loop_acc [of produtos "map localizado (correspondencias x produtos)"]
      resultados_loop_acc [of produtos "[NaoEncontrado x]"]
    by (simp add: Let_def)
qed

lemma resultados_loop_not_found:
  assumes "correspondencias item produtos = []"
  shows "resultados_loop produtos [] (xs @ item # ys)
     = resultados_loop produtos [] xs @ NaoEncontrado item # resultados_loop produtos [] ys"
  using assms resultados_loop_append [of produtos xs "item # ys"]
    resultados_loop_acc [of produtos "[NaoEncontrado item]" ys]
  by (simp add: Let_def)

lemma found_loop_acc:
  "found_loop store items found out
     = (found @ fst (found_loop store items [] []), out @ snd (found_loop store items [] []))"
proof (induction items arbitrary: found out)
  case Nil
  then show ?case by simp
next
  case (Cons it items)
  show ?case
  proof (cases "find_by_name store it")
    case None
    then show ?thesis
      using Cons.IH [of found "out @ [aviso it]"] Cons.IH [of "[]" "[aviso it]"] by simp
  next
    case (Some p)
    then show ?thesis
      using Cons.IH [of "found @ [p]" out] Cons.IH [of "[p]" "[]"] by simp
  qed
qed

lemma found_loop_append:
  "found_loop store (xs @ ys) [] []
     = (fst (found_loop store xs [] []) @ fst (found_loop store ys [] []),
        snd (found_loop store xs [] []) @ snd (found_loop store ys [] []))"
proof (induction xs)
  case Nil
  then show ?case by simp
next
  case (Cons it xs)
  show ?case
  proof (cases "find_by_name store it")
    case None
    then show ?thesis
      using Cons.IH found_loop_acc [of store "xs @ ys" "[]" "[aviso it]"]
        found_loop_acc [of store xs "[]" "[aviso it]"] by simp
  next
    case (Some p)
    then show ?thesis
      using Cons.IH found_loop_acc [of store "xs @ ys" "[p]" "[]"]
        found_loop_acc [of store xs "[p]" "[]"] by simp
  qed
qed

lemma found_loop_not_found:
  assumes "find_by_name store it = None"
  shows "found_loop store (xs @ it # ys) [] []
     = (fst (found_loop store (xs @ ys) [] []),
        snd (found_loop store xs [] []) @ aviso it # snd (found_loop store ys [] []))"
  using assms found_loop_append [of store xs "it # ys"] found_loop_append [of store xs ys]
    found_loop_acc [of store ys "[]" "[aviso it]"]
  by simp

lemma plan_route_fst:
  "fst (plan_route store pos items)
     = route_loop pos (sort_key (\<lambda>p. distance pos (position p)) (fst (found_loop store items [] [])))"
  by (simp add: plan_route_def split_beta)

lemma plan_route_snd: "snd (plan_route store pos items) = snd (found_loop store items [] [])"
  by (simp add: plan_route_def split_beta)

text \<open>
  Claim C5. An item of the list that matches no catalogue entry yields, at its place in
  the results of \<^verbatim>\<open>obter_localizacoes_lista\<close>, one "not found" entry that carries the
  item's text unchanged; the results of the items before and after it are those they
  have without it, and the route of \<^verbatim>\<open>gerar_rota_otimizada\<close> is the route of the list
  without the item. In \<^verbatim>\<open>AgentAI.plan_route\<close> an item that is not found prints one
  warning line, which contains the item's text, between the warnings of the items before
  and after it, and the route is the route of the other items.
\<close>

theorem not_found_is_reported:
  "(lista_compras fs = Some (xs @ item # ys) \<and> localizacoes fs = Some produtos
      \<and> correspondencias item produtos = [] \<longrightarrow>
      (\<exists>r1 r2. obter_localizacoes_lista (fs\<lparr>lista_compras := Some xs\<rparr>) = Inr r1
         \<and> obter_localizacoes_lista (fs\<lparr>lista_compras := Some ys\<rparr>) = Inr r2
         \<and> obter_localizacoes_lista fs = Inr (r1 @ NaoEncontrado item # r2))
      \<and> gerar_rota_otimizada fs = gerar_rota_otimizada (fs\<lparr>lista_compras := Some (xs @ ys)\<rparr>))
   \<and> (find_by_name store it = None \<longrightarrow>
        snd (plan_route store pos (is1 @ it # is2))
          = snd (plan_route store pos is1) @ aviso it # snd (plan_route store pos is2)
        \<and> (\<exists>u v. aviso it = u @ it @ v)
        \<and> fst (plan_route store pos (is1 @ it # is2)) = fst (plan_route store pos (is1 @ is2)))"
proof (intro conjI impI)
  assume a: "lista_compras fs = Some (xs @ item # ys) \<and> localizacoes fs = Some produtos
      \<and> correspondencias item produtos = []"
  then have nf: "correspondencias item produtos = []" by simp
  show "\<exists>r1 r2. obter_localizacoes_lista (fs\<lparr>lista_compras := Some xs\<rparr>) = Inr r1
         \<and> obter_localizacoes_lista (fs\<lparr>lista_compras := Some ys\<rparr>) = Inr r2
         \<and> obter_localizacoes_lista fs = Inr (r1 @ NaoEncontrado item # r2)"
    using a resultados_loop_not_found [OF nf, of xs ys]
    by (simp add: obter_localizacoes_lista_def)
  have "filter is_localizado (resultados_loop produtos [] (xs @ item # ys))
          = filter is_localizado (resultados_loop produtos [] (xs @ ys))"
    using resultados_loop_not_found [OF nf, of xs ys] resultados_loop_append [of produtos xs ys]
    by (simp add: is_localizado_def)
  then show "gerar_rota_otimizada fs = gerar_rota_otimizada (fs\<lparr>lista_compras := Some (xs @ ys)\<rparr>)"
    using a by (simp add: gerar_rota_otimizada_def obter_localizacoes_lista_def)
next
  assume n: "find_by_name store it = None"
  show "snd (plan_route store pos (is1 @ it # is2))
          = snd (plan_route store pos is1) @ aviso it # snd (plan_route store pos is2)"
    using found_loop_not_found [OF n, of is1 is2] by (simp add: plan_route_snd)
  show "fst (plan_route store pos (is1 @ it # is2)) = fst (plan_route store pos (is1 @ is2))"
    using found_loop_not_found [OF n, of is1 is2] by (simp add: plan_route_fst)
  have "aviso it = (''Aviso: produto '' @ [CHR 0x27]) @ it
           @ ([CHR 0x27] @ '' n'' @ [CHR 0xE3] @ ''o encontrado na base de dados'')"
    by (simp add: aviso_def)
  then show "\<exists>u v. aviso it = u @ it @ v" by blast
qed

theorem not_found_is_reported_witness:
  "correspondencias ''sal'' catalogo_ex = []
   \<and> obter_localizacoes_lista (fs_ex [''leite'', ''sal'', ''atum''])
       = Inr [localizado (prod_ex ''Leite Magro'' 2 1), localizado (prod_ex ''Leite de Soja'' 5 1),
              NaoEncontrado ''sal'', localizado (prod_ex ''Atum'' 3 4)]
   \<and> gerar_rota_otimizada (fs_ex [''leite'', ''sal'', ''atum''])
       = gerar_rota_otimizada (fs_ex [''leite'', ''atum''])
   \<and> find_by_name loja_ex ''sal'' = None
   \<and> snd (plan_route loja_ex (0, 0) [''ATUM'', ''sal'', ''leite'']) = [aviso ''sal'', aviso ''leite'']
   \<and> fst (plan_route loja_ex (0, 0) [''ATUM'', ''sal'', ''leite''])
       = fst (plan_route loja_ex (0, 0) [''ATUM'', ''leite''])"
proof -
  have o: "obter_localizacoes_lista (fs_ex [''leite'', ''sal'', ''atum''])
       = Inr [localizado (prod_ex ''Leite Magro'' 2 1), localizado (prod_ex ''Leite de Soja'' 5 1),
              NaoEncontrado ''sal'', localizado (prod_ex ''Atum'' 3 4)]"
    by (simp add: obter_localizacoes_lista_def fs_ex_def correspondencias_ex)
  have s: "snd (plan_route loja_ex (0, 0) [''ATUM'']) = []"
    "snd (plan_route loja_ex (0, 0) [''leite'']) = [aviso ''leite'']"
    by (simp_all add: plan_route_snd find_by_name_ex)
  show ?thesis
    using not_found_is_reported [where fs = "fs_ex [''leite'', ''sal'', ''atum'']" and xs = "[''leite'']"
        and item = "''sal''" and ys = "[''atum'']" and produtos = catalogo_ex
        and store = loja_ex and it = "''sal''" and pos = "(0, 0)" and ?is1.0 = "[''ATUM'']"
        and ?is2.0 = "[''leite'']"]
      o s
    by (simp add: fs_ex_def correspondencias_ex find_by_name_ex)
qed

section \<open>No located product\<close>

lemma is_localizado_simps:
  "is_localizado (localizado p)" "\<not> is_localizado (NaoEncontrado item)"
  by (simp_all add: is_localizado_def localizado_def)

lemma filter_resultados_loop_empty:
  "filter is_localizado (resultados_loop produtos [] lista) = []
     \<longleftrightarrow> (\<forall>item\<in>set lista. correspondencias item produtos = [])"
proof (induction lista)
  case Nil
  then show ?case by simp
next
  case (Cons x lista)
  show ?case
  proof (cases "correspondencias x produtos")
    case Nil
    then show ?thesis
      using Cons.IH resultados_loop_acc [of produtos "[NaoEncontrado x]" lista]
      by (simp add: is_localizado_simps)
  next
    case (Cons c cs)
    then show ?thesis
      using resultados_loop_acc [of produtos "map localizado (correspondencias x produtos)" lista]
      by (simp add: is_localizado_simps)
  qed
qed

lemma found_loop_none:
  "\<forall>it\<in>set items. find_by_name store it = None \<Longrightarrow> fst (found_loop store items found out) = found"
  by (induction items arbitrary: found out) auto

text \<open>
  Claim C4, as stated, fails for \<^verbatim>\<open>gerar_rota_otimizada\<close>: when no item of the list is
  located, the result is the error result of line 112, not an empty route.
\<close>

theorem gerar_rota_otimizada_empty_counterexample:
  "filter is_localizado (resultados_loop catalogo_ex [] [''sal'']) = []
   \<and> gerar_rota_otimizada (fs_ex [''sal'']) = Inl NenhumProdutoComCoordenadas
   \<and> gerar_rota_otimizada (fs_ex [''sal'']) \<noteq> Inr []"
  by (simp add: gerar_rota_otimizada_def obter_localizacoes_lista_def fs_ex_def
      correspondencias_ex is_localizado_simps)

text \<open>
  Claim C4, amended. When both files exist, \<^verbatim>\<open>gerar_rota_otimizada\<close> returns its own
  error result ("Nenhum produto com coordenadas encontrado", status "error"), and no
  route, exactly when no item of the list matches a catalogue entry; it does not raise.
  \<^verbatim>\<open>AgentAI.plan_route\<close>, when no item is found, returns the empty route.
\<close>

theorem empty_match_outcome:
  "(lista_compras fs = Some lista \<and> localizacoes fs = Some produtos \<longrightarrow>
      (gerar_rota_otimizada fs = Inl NenhumProdutoComCoordenadas
         \<longleftrightarrow> (\<forall>item\<in>set lista. correspondencias item produtos = [])))
   \<and> ((\<forall>it\<in>set items. find_by_name store it = None) \<longrightarrow>
        fst (plan_route store pos items) = Inr [])"
proof (intro conjI impI)
  assume a: "lista_compras fs = Some lista \<and> localizacoes fs = Some produtos"
  show "gerar_rota_otimizada fs = Inl NenhumProdutoComCoordenadas
         \<longleftrightarrow> (\<forall>item\<in>set lista. correspondencias item produtos = [])"
    using a filter_resultados_loop_empty [of produtos lista]
    by (simp add: gerar_rota_otimizada_def obter_localizacoes_lista_def Let_def)
next
  assume "\<forall>it\<in>set items. find_by_name store it = None"
  then show "fst (plan_route store pos items) = Inr []"
    by (simp add: plan_route_fst found_loop_none)
qed

theorem empty_match_outcome_witness:
  "gerar_rota_otimizada (fs_ex [''sal'', ''sal'']) = Inl NenhumProdutoComCoordenadas
   \<and> gerar_rota_otimizada (fs_ex [''sal'', ''atum'']) \<noteq> Inl NenhumProdutoComCoordenadas
   \<and> plan_route loja_ex (0, 0) [''sal'', ''leite''] = (Inr [], [aviso ''sal'', aviso ''leite''])"
proof -
  have s: "snd (plan_route loja_ex (0, 0) [''sal'', ''leite'']) = [aviso ''sal'', aviso ''leite'']"
    by (simp add: plan_route_snd find_by_name_ex)
  have f: "fst (plan_route loja_ex (0, 0) [''sal'', ''leite'']) = Inr []"
    using empty_match_outcome [where items = "[''sal'', ''leite'']" and store = loja_ex and pos = "(0, 0)"]
    by (simp add: find_by_name_ex)
  show ?thesis
    using empty_match_outcome [where fs = "fs_ex [''sal'', ''sal'']" and lista = "[''sal'', ''sal'']"
        and produtos = catalogo_ex]
      empty_match_outcome [where fs = "fs_ex [''sal'', ''atum'']" and lista = "[''sal'', ''atum'']"
        and produtos = catalogo_ex]
      s f
    by (simp add: fs_ex_def correspondencias_ex prod_eq_iff)
qed

section \<open>Route sequencing\<close>

lemma min_key_split:
  "\<exists>us vs. b # xs = us @ min_key key b xs # vs
     \<and> (\<forall>q\<in>set us. key (min_key key b xs) < key q)
     \<and> (\<forall>q\<in>set vs. key (min_key key b xs) \<le> key q)"
proof (induction xs arbitrary: b)
  case Nil
  show ?case
    by (rule exI [of _ "[]"], rule exI [of _ "[]"]) simp
next
  case (Cons x xs)
  show ?case
  proof (cases "key x < key b")
    case True
    then have mk: "min_key key b (x # xs) = min_key key x xs" by simp
    from Cons.IH [of x] obtain us vs where
      e: "x # xs = us @ min_key key x xs # vs"
      and u: "\<forall>q\<in>set us. key (min_key key x xs) < key q"
      and v: "\<forall>q\<in>set vs. key (min_key key x xs) \<le> key q" by blast
    have "x \<in> set (us @ min_key key x xs # vs)"
      unfolding e [symmetric] by simp
    then have "x \<in> set us \<or> x = min_key key x xs \<or> x \<in> set vs" by auto
    then have "key (min_key key x xs) \<le> key x" using u v by auto
    then have lt: "key (min_key key x xs) < key b" using True by simp
    have e': "b # x # xs = (b # us) @ min_key key x xs # vs"
      using e by simp
    show ?thesis
      unfolding mk
      by (rule exI [of _ "b # us"], rule exI [of _ vs]) (use e' lt u v in simp)
  next
    case False
    then have mk: "min_key key b (x # xs) = min_key key b xs" by simp
    from Cons.IH [of b] obtain us vs where
      e: "b # xs = us @ min_key key b xs # vs"
      and u: "\<forall>q\<in>set us. key (min_key key b xs) < key q"
      and v: "\<forall>q\<in>set vs. key (min_key key b xs) \<le> key q" by blast
    show ?thesis
    proof (cases us)
      case Nil
      from e have "b # xs = [] @ min_key key b xs # vs" unfolding Nil .
      then have m: "min_key key b xs = b" and vs: "vs = xs" by (metis append_Nil list.inject)+
      have le: "\<forall>q\<in>set (x # xs). key b \<le> key q"
        using False v m vs by auto
      show ?thesis
        unfolding mk m
        by (rule exI [of _ "[]"], rule exI [of _ "x # xs"]) (use le in simp)
    next
      case (Cons a us')
      from e have "b # xs = (a # us') @ min_key key b xs # vs" unfolding Cons .
      then have a: "a = b" and xs: "xs = us' @ min_key key b xs # vs" by (metis append_Cons list.inject)+
      have "key (min_key key b xs) < key b" using u Cons a by simp
      then have lt: "key (min_key key b xs) < key x" using False by simp
      have e': "b # x # xs = (b # x # us') @ min_key key b xs # vs"
        using xs by simp
      have u': "\<forall>q\<in>set (b # x # us'). key (min_key key b xs) < key q"
        using u Cons a lt by simp
      show ?thesis
        unfolding mk
        by (rule exI [of _ "b # x # us'"], rule exI [of _ vs]) (use e' u' v in blast)
    qed
  qed
qed

lemma min_key_in: "min_key key b xs \<in> set (b # xs)"
  using min_key_split [of b xs key] by (metis in_set_conv_decomp)

lemma min_key_le: "q \<in> set (b # xs) \<Longrightarrow> key (min_key key b xs) \<le> key q"
proof -
  assume q: "q \<in> set (b # xs)"
  from min_key_split [of b xs key] obtain us vs where
      e: "b # xs = us @ min_key key b xs # vs"
      and u: "\<forall>q\<in>set us. key (min_key key b xs) < key q"
      and v: "\<forall>q\<in>set vs. key (min_key key b xs) \<le> key q" by blast
  from q e have "q \<in> set us \<or> q = min_key key b xs \<or> q \<in> set vs"
    by (metis Un_iff set_ConsD set_append)
  then show ?thesis using u v by auto
qed

lemma find_first:
  "\<forall>x\<in>set us. \<not> P x \<Longrightarrow> P m \<Longrightarrow> find P (us @ m # vs) = Some m"
  by (induction us) auto

lemma nearest_min_key:
  "nearest coord cur (p0 # ps) = Some (min_key (\<lambda>p. distance cur (coord p)) p0 ps)"
proof -
  let ?key = "\<lambda>p. distance cur (coord p)"
  let ?m = "min_key ?key p0 ps"
  from min_key_split [of p0 ps ?key] obtain us vs where
      e: "p0 # ps = us @ ?m # vs"
      and u: "\<forall>q\<in>set us. ?key ?m < ?key q"
      and v: "\<forall>q\<in>set vs. ?key ?m \<le> ?key q" by blast
  have mem: "?m \<in> set (p0 # ps)" by (rule min_key_in)
  have "find (\<lambda>p. \<forall>q\<in>set (p0 # ps). ?key p \<le> ?key q) (us @ ?m # vs) = Some ?m"
  proof -
    have a: "\<forall>x\<in>set us. \<not> (\<forall>q\<in>set (p0 # ps). ?key x \<le> ?key q)"
      using u mem by (meson not_le)
    have b: "\<forall>q\<in>set (p0 # ps). ?key ?m \<le> ?key q"
      using min_key_le [of _ p0 ps ?key] by blast
    show ?thesis
      using a b by (rule find_first)
  qed
  then show ?thesis
    unfolding nearest_def using e by simp
qed

lemma nearest_Nil: "nearest coord cur [] = None"
  by (simp add: nearest_def)

lemma nearest_SomeD:
  assumes "nearest coord cur unv = Some m"
  shows "m \<in> set unv" and "\<forall>q\<in>set unv. distance cur (coord m) \<le> distance cur (coord q)"
  using assms by (auto simp: nearest_def find_Some_iff)

lemma nearest_None: "nearest coord cur unv = None \<longleftrightarrow> unv = []"
  by (cases unv) (simp_all add: nearest_Nil nearest_min_key)

lemma greedy_nn_Nil: "greedy_nn coord cur [] = []"
  by (simp add: greedy_nn.simps nearest_Nil)

lemma greedy_nn_Cons:
  "greedy_nn coord cur (p0 # ps) =
     (let m = min_key (\<lambda>p. distance cur (coord p)) p0 ps
      in m # greedy_nn coord (coord m) (remove1 m (p0 # ps)))"
  by (subst greedy_nn.simps) (simp add: nearest_min_key Let_def del: remove1.simps)

lemma greedy_nn_Some:
  "nearest coord cur unv = Some m \<Longrightarrow>
   greedy_nn coord cur unv = m # greedy_nn coord (coord m) (remove1 m unv)"
  by (subst greedy_nn.simps) simp

lemma names_card:
  assumes "finite V" and "V \<subseteq> nome ` set produtos" and "\<not> card V < length produtos"
  shows "filter (\<lambda>p. nome p \<notin> V) produtos = []"
proof -
  have "card (nome ` set produtos) \<le> length produtos"
    by (metis card_image_le card_length le_trans List.finite_set)
  with assms(3) have "card (nome ` set produtos) \<le> card V" by simp
  with assms(2) have "V = nome ` set produtos"
    by (simp add: card_seteq)
  then show ?thesis
    by (simp add: filter_empty_conv)
qed

lemma filter_name_remove1:
  "distinct (map nome xs) \<Longrightarrow> m \<in> set xs \<Longrightarrow> filter (\<lambda>p. nome p \<noteq> nome m) xs = remove1 m xs"
proof (induction xs)
  case Nil
  then show ?case by simp
next
  case (Cons x xs)
  show ?case
  proof (cases "x = m")
    case True
    then have "nome m \<notin> nome ` set xs" using Cons.prems(1) by simp
    then have "\<forall>p\<in>set xs. nome p \<noteq> nome m" by (metis imageI)
    then have "filter (\<lambda>p. nome p \<noteq> nome m) xs = xs" by (simp add: filter_id_conv)
    then show ?thesis using True by simp
  next
    case False
    then have m: "m \<in> set xs" using Cons.prems(2) by simp
    then have "nome x \<noteq> nome m" using Cons.prems(1) by (metis distinct.simps(2) imageI list.simps(9) list.set_map)
    then show ?thesis using False m Cons.IH Cons.prems(1) by simp
  qed
qed

lemma nn_loop_inv:
  assumes "set rota \<subseteq> set produtos" and "distinct (map nome rota)" and "V = nome ` set rota"
  shows "set (nn_loop nome coord produtos rota V atual) \<subseteq> set produtos
       \<and> distinct (map nome (nn_loop nome coord produtos rota V atual))
       \<and> nome ` set (nn_loop nome coord produtos rota V atual) = nome ` set produtos"
  using assms
proof (induction nome coord produtos rota V atual rule: nn_loop.induct)
  case (1 nome coord produtos rota V atual)
  have fin: "finite V" and sub: "V \<subseteq> nome ` set produtos"
    using "1.prems" by auto
  show ?case
  proof (cases "card V < length produtos \<and> filter (\<lambda>p. nome p \<notin> V) produtos \<noteq> []")
    case False
    then have e: "filter (\<lambda>p. nome p \<notin> V) produtos = []"
      using names_card [OF fin sub] by blast
    then have r: "nn_loop nome coord produtos rota V atual = rota"
      by (subst nn_loop.simps) simp
    from e have "nome ` set produtos \<subseteq> V"
      by (auto simp: filter_empty_conv)
    with sub have "nome ` set rota = nome ` set produtos"
      using "1.prems"(3) by blast
    then show ?thesis
      unfolding r using "1.prems" by simp
  next
    case True
    then have c: "card V < length produtos" by simp
    from True obtain p0 ps where f: "filter (\<lambda>p. nome p \<notin> V) produtos = p0 # ps"
      by (cases "filter (\<lambda>p. nome p \<notin> V) produtos") auto
    define proximo where "proximo = min_key (\<lambda>p. distance (coord atual) (coord p)) p0 ps"
    have "proximo \<in> set (p0 # ps)"
      unfolding proximo_def by (rule min_key_in)
    then have "proximo \<in> set (filter (\<lambda>p. nome p \<notin> V) produtos)"
      using f by simp
    then have mem: "proximo \<in> set produtos" and new: "nome proximo \<notin> V" by simp_all
    have a: "set (rota @ [proximo]) \<subseteq> set produtos"
      using "1.prems"(1) mem by simp
    have b: "distinct (map nome (rota @ [proximo]))"
      using "1.prems"(2,3) new by simp
    have d: "insert (nome proximo) V = nome ` set (rota @ [proximo])"
      using "1.prems"(3) by simp
    have r: "nn_loop nome coord produtos rota V atual
              = nn_loop nome coord produtos (rota @ [proximo]) (insert (nome proximo) V) proximo"
      using c f by (subst nn_loop.simps) (simp add: proximo_def Let_def)
    show ?thesis
      unfolding r by (rule "1.IH" [OF c f proximo_def a b d])
  qed
qed

lemma nn_loop_greedy:
  assumes "finite V" and "V \<subseteq> nome ` set produtos" and "distinct (map nome produtos)"
  shows "nn_loop nome coord produtos rota V atual
           = rota @ greedy_nn coord (coord atual) (filter (\<lambda>p. nome p \<notin> V) produtos)"
  using assms
proof (induction nome coord produtos rota V atual rule: nn_loop.induct)
  case (1 nome coord produtos rota V atual)
  show ?case
  proof (cases "card V < length produtos")
    case False
    then have "filter (\<lambda>p. nome p \<notin> V) produtos = []"
      using "1.prems" by (intro names_card) auto
    then show ?thesis
      using False by (subst nn_loop.simps) (simp add: greedy_nn_Nil)
  next
    case True
    show ?thesis
    proof (cases "filter (\<lambda>p. nome p \<notin> V) produtos")
      case Nil
      then show ?thesis
        using True by (subst nn_loop.simps) (simp add: greedy_nn_Nil)
    next
      case (Cons p0 ps)
      define proximo where "proximo = min_key (\<lambda>p. distance (coord atual) (coord p)) p0 ps"
      have pm: "proximo \<in> set (p0 # ps)"
        unfolding proximo_def by (rule min_key_in)
      then have "proximo \<in> set (filter (\<lambda>p. nome p \<notin> V) produtos)"
        using Cons by simp
      then have mem: "proximo \<in> set produtos" by simp
      have fin: "finite (insert (nome proximo) V)"
        using "1.prems" by simp
      have sub: "insert (nome proximo) V \<subseteq> nome ` set produtos"
        using "1.prems" mem by auto
      have "distinct (map nome (filter (\<lambda>p. nome p \<notin> V) produtos))"
        using "1.prems"(3) by (rule distinct_map_filter)
      then have dc: "distinct (map nome (p0 # ps))"
        unfolding Cons .
      have "filter (\<lambda>p. nome p \<noteq> nome proximo) (p0 # ps)
                   = filter (\<lambda>p. nome p \<notin> insert (nome proximo) V) produtos"
        unfolding Cons [symmetric] by (auto intro: filter_cong)
      then have flt: "remove1 proximo (p0 # ps)
                   = filter (\<lambda>p. nome p \<notin> insert (nome proximo) V) produtos"
        using filter_name_remove1 [OF dc pm] by simp
      have ih: "nn_loop nome coord produtos (rota @ [proximo]) (insert (nome proximo) V) proximo
           = (rota @ [proximo]) @ greedy_nn coord (coord proximo)
               (filter (\<lambda>p. nome p \<notin> insert (nome proximo) V) produtos)"
        using "1.IH" [OF True Cons proximo_def fin sub "1.prems"(3)] .
      have "nn_loop nome coord produtos rota V atual
              = nn_loop nome coord produtos (rota @ [proximo]) (insert (nome proximo) V) proximo"
        using True Cons by (subst nn_loop.simps) (simp add: proximo_def Let_def)
      also have "\<dots> = rota @ proximo # greedy_nn coord (coord proximo) (remove1 proximo (p0 # ps))"
        unfolding ih flt by simp
      also have "\<dots> = rota @ greedy_nn coord (coord atual) (p0 # ps)"
        by (simp only: greedy_nn_Cons [of coord "coord atual"] Let_def proximo_def)
      finally show ?thesis
        unfolding Cons .
    qed
  qed
qed

lemma distance_self: "distance a a = 0"
  by (simp add: distance_def)

lemma distance_nonneg: "0 \<le> distance a b"
  by (simp add: distance_def)

lemma nearest_neighbor_greedy:
  assumes "distinct (map nome produtos)"
  shows "nearest_neighbor nome coord produtos
     = (case produtos of [] \<Rightarrow> [] | p # _ \<Rightarrow> greedy_nn coord (coord p) produtos)"
proof (cases produtos)
  case Nil
  then show ?thesis by (simp add: nearest_neighbor_def)
next
  case (Cons p ps)
  have n: "nearest coord (coord p) (p # ps) = Some p"
    by (simp add: nearest_def distance_self distance_nonneg)
  have "nome p \<notin> nome ` set ps"
    using assms unfolding Cons by simp
  then have "\<forall>q\<in>set ps. nome q \<noteq> nome p"
    by (metis imageI)
  then have f: "filter (\<lambda>q. nome q \<notin> {nome p}) produtos = ps"
    unfolding Cons by (simp add: filter_id_conv)
  have "nn_loop nome coord produtos [p] {nome p} p
          = [p] @ greedy_nn coord (coord p) (filter (\<lambda>q. nome q \<notin> {nome p}) produtos)"
    using assms by (intro nn_loop_greedy) (simp_all add: Cons)
  then have a: "nn_loop nome coord produtos [p] {nome p} p = p # greedy_nn coord (coord p) ps"
    by (simp only: f append_Cons append_Nil)
  have b: "greedy_nn coord (coord p) (p # ps) = p # greedy_nn coord (coord p) ps"
    using greedy_nn_Some [OF n] by simp
  show ?thesis
    unfolding nearest_neighbor_def Cons list.case b using a Cons by simp
qed

lemma greedy_nn_first:
  assumes "greedy_nn coord cur unv = m # g"
  shows "\<forall>q\<in>set unv. distance cur (coord m) \<le> distance cur (coord q)"
proof (cases "nearest coord cur unv")
  case None
  then show ?thesis using assms by (simp add: nearest_None greedy_nn_Nil)
next
  case (Some m')
  from greedy_nn_Some [OF Some] assms have "m' = m" by simp
  with Some show ?thesis using nearest_SomeD(2) by metis
qed

lemma greedy_nn_adjacent:
  "Suc i < length (greedy_nn coord cur unv) \<Longrightarrow> q \<in> set unv \<Longrightarrow>
   q \<notin> set (take (Suc i) (greedy_nn coord cur unv)) \<Longrightarrow>
   distance (coord (greedy_nn coord cur unv ! i)) (coord (greedy_nn coord cur unv ! Suc i))
     \<le> distance (coord (greedy_nn coord cur unv ! i)) (coord q)"
proof (induction coord cur unv arbitrary: i rule: greedy_nn.induct)
  case (1 coord cur unvisited)
  show ?case
  proof (cases "nearest coord cur unvisited")
    case None
    then have "unvisited = []" by (simp add: nearest_None)
    then show ?thesis using "1.prems" by simp
  next
    case (Some m)
    let ?rest = "remove1 m unvisited"
    let ?g = "greedy_nn coord (coord m) ?rest"
    have g: "greedy_nn coord cur unvisited = m # ?g"
      by (rule greedy_nn_Some [OF Some])
    have len: "i < length ?g" using "1.prems"(1) unfolding g by simp
    have qm: "q \<noteq> m" using "1.prems"(3) unfolding g by simp
    then have qr: "q \<in> set ?rest" using "1.prems"(2) by simp
    show ?thesis
    proof (cases i)
      case 0
      from len 0 obtain h t where ht: "?g = h # t" by (cases ?g) auto
      from greedy_nn_first [OF ht] qr
      have "distance (coord m) (coord h) \<le> distance (coord m) (coord q)" by blast
      then show ?thesis unfolding g 0 ht by simp
    next
      case (Suc j)
      have "q \<notin> set (take (Suc j) ?g)"
        using "1.prems"(3) unfolding g Suc by simp
      with "1.IH" [OF Some, of j] len qr Suc
      have "distance (coord (?g ! j)) (coord (?g ! Suc j)) \<le> distance (coord (?g ! j)) (coord q)"
        by simp
      then show ?thesis unfolding g Suc by simp
    qed
  qed
qed

lemma greedy_nn_mset: "mset (greedy_nn coord cur unv) = mset unv"
proof (induction coord cur unv rule: greedy_nn.induct)
  case (1 coord cur unvisited)
  show ?case
  proof (cases "nearest coord cur unvisited")
    case None
    then have "unvisited = []" by (simp add: nearest_None)
    then show ?thesis by (simp add: greedy_nn_Nil)
  next
    case (Some m)
    have m: "m \<in> set unvisited" using Some by (rule nearest_SomeD)
    show ?thesis
      using "1.IH" [OF Some] m by (simp add: greedy_nn_Some [OF Some])
  qed
qed

lemma nearest_neighbor_props:
  "set (nearest_neighbor nome coord produtos) \<subseteq> set produtos
   \<and> distinct (map nome (nearest_neighbor nome coord produtos))
   \<and> nome ` set (nearest_neighbor nome coord produtos) = nome ` set produtos"
proof (cases produtos)
  case Nil
  then show ?thesis by (simp add: nearest_neighbor_def)
next
  case (Cons p ps)
  have "set (nn_loop nome coord produtos [p] {nome p} p) \<subseteq> set produtos
       \<and> distinct (map nome (nn_loop nome coord produtos [p] {nome p} p))
       \<and> nome ` set (nn_loop nome coord produtos [p] {nome p} p) = nome ` set produtos"
    by (rule nn_loop_inv) (simp_all add: Cons)
  then show ?thesis
    by (simp add: nearest_neighbor_def Cons)
qed

lemma nearest_neighbor_length:
  "length (nearest_neighbor nome coord produtos) \<le> length produtos"
proof -
  let ?r = "nearest_neighbor nome coord produtos"
  have "length ?r = card (nome ` set ?r)"
    using nearest_neighbor_props [of nome coord produtos]
    by (metis distinct_card length_map list.set_map)
  also have "\<dots> = card (nome ` set produtos)"
    using nearest_neighbor_props [of nome coord produtos] by simp
  also have "\<dots> \<le> length produtos"
    by (metis card_image_le card_length le_trans List.finite_set)
  finally show ?thesis .
qed

lemma nearest_neighbor_perm:
  assumes "distinct (map nome produtos)"
  shows "mset (nearest_neighbor nome coord produtos) = mset produtos"
    and "distinct (nearest_neighbor nome coord produtos)"
    and "length (nearest_neighbor nome coord produtos) = length produtos"
proof -
  let ?r = "nearest_neighbor nome coord produtos"
  from nearest_neighbor_props [of nome coord produtos]
  have s: "set ?r \<subseteq> set produtos" and d: "distinct (map nome ?r)"
    and n: "nome ` set ?r = nome ` set produtos" by simp_all
  have inj: "inj_on nome (set produtos)" and dp: "distinct produtos"
    using assms by (simp_all add: distinct_map)
  have "set produtos \<subseteq> set ?r"
  proof
    fix p assume p: "p \<in> set produtos"
    then have "nome p \<in> nome ` set ?r" using n by auto
    then obtain q where q: "q \<in> set ?r" and e: "nome q = nome p" by auto
    with s have "q \<in> set produtos" by auto
    with inj p e have "q = p" by (auto dest: inj_onD)
    with q show "p \<in> set ?r" by simp
  qed
  with s have eq: "set ?r = set produtos" by auto
  show dr: "distinct ?r" using d by (simp add: distinct_map)
  show m: "mset ?r = mset produtos"
    using eq dr dp by (simp add: set_eq_iff_mset_eq_distinct)
  show "length ?r = length produtos"
    using m by (metis size_mset)
qed

lemma meters_to_steps_default:
  "meters_to_steps d (3/4) = Inr (max 1 (py_round (d / (3/4))))"
  by (simp add: meters_to_steps_def)

lemma route_loop_products: "\<exists>route. route_loop prev ps = Inr route \<and> map fst route = ps"
proof (induction ps arbitrary: prev)
  case Nil
  then show ?case by simp
next
  case (Cons p ps)
  from Cons.IH [of "position p"] obtain route where
    "route_loop (position p) ps = Inr route" and "map fst route = ps" by blast
  then show ?case
    by (simp add: meters_to_steps_default)
qed

lemma found_loop_map_filter:
  "fst (found_loop store items [] []) = List.map_filter (find_by_name store) items"
proof (induction items)
  case Nil
  then show ?case by simp
next
  case (Cons it items)
  show ?case
  proof (cases "find_by_name store it")
    case None
    then show ?thesis
      using Cons.IH found_loop_acc [of store items "[]" "[aviso it]"]
      by simp
  next
    case (Some p)
    then show ?thesis
      using Cons.IH found_loop_acc [of store items "[p]" "[]"]
      by simp
  qed
qed

lemma plan_route_order:
  "\<exists>route. fst (plan_route store pos items) = Inr route
     \<and> map fst route
         = sort_key (\<lambda>p. distance pos (position p)) (List.map_filter (find_by_name store) items)"
  using route_loop_products
    [of pos "sort_key (\<lambda>p. distance pos (position p)) (List.map_filter (find_by_name store) items)"]
  by (simp add: plan_route_fst found_loop_map_filter)

lemma gerar_rota_otimizada_Inr:
  assumes "gerar_rota_otimizada fs = Inr rota"
  shows "\<exists>resultados. obter_localizacoes_lista fs = Inr resultados
           \<and> filter is_localizado resultados \<noteq> []
           \<and> rota = nearest_neighbor produto r_coord (filter is_localizado resultados)"
  using assms
  by (auto simp: gerar_rota_otimizada_def Let_def split: sum.splits if_splits)

lemma mostrar_rota_visual_Inr:
  assumes "mostrar_rota_visual fs = Inr (instrucoes, rota)"
  shows "\<exists>lista prods. lista_compras fs = Some lista \<and> localizacoes fs = Some prods
           \<and> selecionados_de lista prods \<noteq> []
           \<and> rota = nearest_neighbor nome_produto j_coord (selecionados_de lista prods)"
  using assms
  by (auto simp: mostrar_rota_visual_def Let_def split: option.splits if_splits)

lemma loja_linha_eq:
  "loja_linha =
     [(''a'', \<lparr>uid = ''a'', name = ''arroz'', position = (3, 0), shelf_level = 0\<rparr>),
      (''b'', \<lparr>uid = ''b'', name = ''bolo'', position = (- 4, 0), shelf_level = 0\<rparr>),
      (''c'', \<lparr>uid = ''c'', name = ''cha'', position = (7, 0), shelf_level = 0\<rparr>)]"
  by (simp add: loja_linha_def)

lemma lower_linha:
  "lower ''arroz'' = ''arroz''" "lower ''bolo'' = ''bolo''" "lower ''cha'' = ''cha''"
  by code_simp+

lemma find_by_name_linha:
  "find_by_name loja_linha ''arroz'' = Some \<lparr>uid = ''a'', name = ''arroz'', position = (3, 0), shelf_level = 0\<rparr>"
  "find_by_name loja_linha ''bolo'' = Some \<lparr>uid = ''b'', name = ''bolo'', position = (- 4, 0), shelf_level = 0\<rparr>"
  "find_by_name loja_linha ''cha'' = Some \<lparr>uid = ''c'', name = ''cha'', position = (7, 0), shelf_level = 0\<rparr>"
  by (simp_all add: find_by_name_def loja_linha_eq lower_linha)

lemma p_ex_simps:
  "produto p_atum = ''Atum''" "produto p_magro = ''Leite Magro''" "produto p_soja = ''Leite de Soja''"
  "r_coord p_atum = (3, 4)" "r_coord p_magro = (2, 1)" "r_coord p_soja = (5, 1)"
  "is_localizado p_atum" "is_localizado p_magro" "is_localizado p_soja"
  by (simp_all add: p_atum_def p_magro_def p_soja_def localizado_def prod_ex_def r_coord_def
      is_localizado_def)

lemma p_ex_distinct:
  "p_atum \<noteq> p_magro" "p_atum \<noteq> p_soja" "p_magro \<noteq> p_soja"
  "p_magro \<noteq> p_atum" "p_soja \<noteq> p_atum" "p_soja \<noteq> p_magro"
  by (simp_all add: p_atum_def p_magro_def p_soja_def localizado_def prod_ex_def)

lemma nearest_neighbor_ex1:
  "nearest_neighbor produto r_coord [p_atum, p_soja, p_magro] = [p_atum, p_magro, p_soja]"
  by (simp add: nearest_neighbor_def nn_loop.simps p_ex_simps p_ex_distinct distance_def)

lemma nearest_neighbor_ex2:
  "nearest_neighbor produto r_coord [p_atum, p_magro, p_soja] = [p_atum, p_magro, p_soja]"
  by (simp add: nearest_neighbor_def nn_loop.simps p_ex_simps p_ex_distinct distance_def)

lemma nearest_neighbor_ex3:
  "nearest_neighbor produto r_coord [p_magro, p_soja, p_magro] = [p_magro, p_soja]"
  by (simp add: nearest_neighbor_def nn_loop.simps p_ex_simps p_ex_distinct distance_def)

lemmas nearest_neighbor_ex = nearest_neighbor_ex1 nearest_neighbor_ex2 nearest_neighbor_ex3

lemma obter_localizacoes_lista_ex:
  "obter_localizacoes_lista (fs_ex [''atum'', ''leite'']) = Inr [p_atum, p_magro, p_soja]"
  "obter_localizacoes_lista (fs_ex [''leite'', ''sal'', ''magro''])
     = Inr [p_magro, p_soja, NaoEncontrado ''sal'', p_magro]"
proof -
  have l: "lower ''magro'' = ''magro''" by code_simp
  have c: "correspondencias ''magro'' catalogo_ex = [prod_ex ''Leite Magro'' 2 1]"
    by (simp add: correspondencias_def catalogo_ex_def prod_ex_def lower_ex l)
  show "obter_localizacoes_lista (fs_ex [''atum'', ''leite'']) = Inr [p_atum, p_magro, p_soja]"
    by (simp add: obter_localizacoes_lista_def fs_ex_def correspondencias_ex
        p_atum_def p_magro_def p_soja_def)
  show "obter_localizacoes_lista (fs_ex [''leite'', ''sal'', ''magro''])
     = Inr [p_magro, p_soja, NaoEncontrado ''sal'', p_magro]"
    by (simp add: obter_localizacoes_lista_def fs_ex_def correspondencias_ex c
        p_atum_def p_magro_def p_soja_def)
qed

lemma gerar_rota_otimizada_ex:
  "gerar_rota_otimizada (fs_ex [''atum'', ''leite'']) = Inr [p_atum, p_magro, p_soja]"
  "gerar_rota_otimizada (fs_ex [''leite'', ''sal'', ''magro'']) = Inr [p_magro, p_soja]"
  by (simp_all add: gerar_rota_otimizada_def obter_localizacoes_lista_ex p_ex_simps
      is_localizado_simps nearest_neighbor_ex)

lemma nomes_ex:
  "obter_localizacoes_lista (fs_nomes [''leite'', ''atum''])
     = Inr [localizado (prod_ex ''Leite'' 0 0), localizado (prod_ex ''Leite'' 9 9),
            localizado (prod_ex ''Atum'' 1 1)]"
  "nearest_neighbor produto r_coord
     [localizado (prod_ex ''Leite'' 0 0), localizado (prod_ex ''Leite'' 9 9),
      localizado (prod_ex ''Atum'' 1 1)]
     = [localizado (prod_ex ''Leite'' 0 0), localizado (prod_ex ''Atum'' 1 1)]"
  "nearest_neighbor produto r_coord
     [localizado (prod_ex ''Leite'' 0 0), localizado (prod_ex ''Atum'' 5 5),
      localizado (prod_ex ''Leite'' 1 1)]
     = [localizado (prod_ex ''Leite'' 0 0), localizado (prod_ex ''Atum'' 5 5)]"
proof -
  have l: "lower ''Leite'' = ''leite''" by code_simp
  have c: "correspondencias ''leite'' catalogo_nomes = [prod_ex ''Leite'' 0 0, prod_ex ''Leite'' 9 9]"
    "correspondencias ''atum'' catalogo_nomes = [prod_ex ''Atum'' 1 1]"
    by (simp_all add: correspondencias_def catalogo_nomes_def prod_ex_def lower_ex l)
  show "obter_localizacoes_lista (fs_nomes [''leite'', ''atum''])
     = Inr [localizado (prod_ex ''Leite'' 0 0), localizado (prod_ex ''Leite'' 9 9),
            localizado (prod_ex ''Atum'' 1 1)]"
    by (simp add: obter_localizacoes_lista_def fs_nomes_def c)
  show "nearest_neighbor produto r_coord
     [localizado (prod_ex ''Leite'' 0 0), localizado (prod_ex ''Leite'' 9 9),
      localizado (prod_ex ''Atum'' 1 1)]
     = [localizado (prod_ex ''Leite'' 0 0), localizado (prod_ex ''Atum'' 1 1)]"
    by (simp add: nearest_neighbor_def nn_loop.simps localizado_def prod_ex_def r_coord_def
        distance_def)
  show "nearest_neighbor produto r_coord
     [localizado (prod_ex ''Leite'' 0 0), localizado (prod_ex ''Atum'' 5 5),
      localizado (prod_ex ''Leite'' 1 1)]
     = [localizado (prod_ex ''Leite'' 0 0), localizado (prod_ex ''Atum'' 5 5)]"
    by (simp add: nearest_neighbor_def nn_loop.simps localizado_def prod_ex_def r_coord_def
        distance_def)
qed

lemma gerar_rota_otimizada_nomes:
  "gerar_rota_otimizada (fs_nomes [''leite'', ''atum''])
     = Inr [localizado (prod_ex ''Leite'' 0 0), localizado (prod_ex ''Atum'' 1 1)]"
  by (simp add: gerar_rota_otimizada_def nomes_ex(1) is_localizado_simps nomes_ex(2))

lemma nearest_neighbor_length_card:
  "length (nearest_neighbor nome coord produtos) = card (nome ` set produtos)"
proof -
  let ?r = "nearest_neighbor nome coord produtos"
  have "length ?r = card (nome ` set ?r)"
    using nearest_neighbor_props [of nome coord produtos]
    by (metis distinct_card length_map list.set_map)
  then show ?thesis
    using nearest_neighbor_props [of nome coord produtos] by simp
qed

text \<open>
  Claim C1, as stated, fails in two ways. \<^verbatim>\<open>AgentAI.plan_route\<close>: in a store with
  "arroz" at (3, 0), "bolo" at (-4, 0) and "cha" at (7, 0), the route planned from (0, 0)
  visits (3, 0), (-4, 0), (7, 0), although at (3, 0) the unvisited "cha" is strictly
  closer than "bolo"; the greedy nearest-neighbour sequence from (0, 0) is (3, 0),
  (7, 0), (-4, 0). The loop of \<^verbatim>\<open>gerar_rota_otimizada\<close>: on the three distinct
  products "Leite" at (0, 0), "Atum" at (5, 5) and "Leite" at (1, 1) the route is
  "Leite" at (0, 0), "Atum" at (5, 5), although the product at (1, 1), which is never
  visited, is strictly closer to (0, 0) than the product at (5, 5): the loop marks a
  product visited by its name.
\<close>

theorem plan_route_counterexample:
  "map_sum id (map (position \<circ> fst)) (fst (plan_route loja_linha (0, 0) [''cha'', ''bolo'', ''arroz'']))
     = Inr [(3, 0), (- 4, 0), (7, 0)]
   \<and> distance (3, 0) (7, 0) < distance (3, 0) (- 4, 0)
   \<and> map position
        (greedy_nn position (0, 0) (List.map_filter (find_by_name loja_linha) [''cha'', ''bolo'', ''arroz'']))
     = [(3, 0), (7, 0), (- 4, 0)]
   \<and> nearest_neighbor produto r_coord
        [localizado (prod_ex ''Leite'' 0 0), localizado (prod_ex ''Atum'' 5 5),
         localizado (prod_ex ''Leite'' 1 1)]
     = [localizado (prod_ex ''Leite'' 0 0), localizado (prod_ex ''Atum'' 5 5)]
   \<and> distinct [localizado (prod_ex ''Leite'' 0 0), localizado (prod_ex ''Atum'' 5 5),
         localizado (prod_ex ''Leite'' 1 1)]
   \<and> distance (0, 0) (1, 1) < distance (0, 0) (5, 5)"
proof -
  obtain route where r: "fst (plan_route loja_linha (0, 0) [''cha'', ''bolo'', ''arroz'']) = Inr route"
    and m: "map fst route = sort_key (\<lambda>p. distance (0, 0) (position p))
              (List.map_filter (find_by_name loja_linha) [''cha'', ''bolo'', ''arroz''])"
    using plan_route_order by blast
  have "map (position \<circ> fst) route = map position (map fst route)" by simp
  also have "\<dots> = [(3, 0), (- 4, 0), (7, 0)]"
    unfolding m by (simp add: find_by_name_linha distance_def)
  finally have a: "map_sum id (map (position \<circ> fst))
      (fst (plan_route loja_linha (0, 0) [''cha'', ''bolo'', ''arroz''])) = Inr [(3, 0), (- 4, 0), (7, 0)]"
    using r by simp
  have b: "distance (3, 0) (7, 0) < distance (3, 0) (- 4, 0)"
    by (simp add: distance_def)
  have c: "map position
        (greedy_nn position (0, 0) (List.map_filter (find_by_name loja_linha) [''cha'', ''bolo'', ''arroz'']))
     = [(3, 0), (7, 0), (- 4, 0)]"
    by (simp add: find_by_name_linha greedy_nn_Cons greedy_nn_Nil distance_def)
  have d: "distinct [localizado (prod_ex ''Leite'' 0 0), localizado (prod_ex ''Atum'' 5 5),
         localizado (prod_ex ''Leite'' 1 1)]"
    by (simp add: localizado_def prod_ex_def)
  have e: "distance (0, 0) (1, 1) < distance (0, 0) (5, 5)"
    by (simp add: distance_def)
  show ?thesis using a b c nomes_ex(3) d e by blast
qed

text \<open>
  Claim C1, amended. The loop of \<^verbatim>\<open>gerar_rota_otimizada\<close> (and of
  \<^verbatim>\<open>mostrar_rota_visual\<close>) takes no starting position. For every non-empty input
  collection of positioned products with pairwise distinct names, its route is the
  greedy nearest-neighbour sequence of the specification (at each step the unvisited
  product with minimum Euclidean distance to the current position, ties broken by first
  occurrence in the input, the current position becoming that product's position)
  started at the position of the first input product, which is therefore the first stop;
  and for every adjacent pair of the route no product unvisited at that step is strictly
  closer to the first of the pair than the second is. \<^verbatim>\<open>AgentAI.plan_route\<close> takes a
  starting position and does not fail; its stops are the found products in ascending
  order of their distance to the starting position (a stable sort), so that its first
  stop is the found product nearest the starting position.
\<close>

theorem nearest_neighbor_route:
  "(distinct (map nome produtos) \<and> produtos \<noteq> [] \<longrightarrow>
      nearest_neighbor nome coord produtos = greedy_nn coord (coord (hd produtos)) produtos
      \<and> hd (nearest_neighbor nome coord produtos) = hd produtos)
   \<and> (distinct (map nome produtos) \<longrightarrow>
        (\<forall>i q. Suc i < length (nearest_neighbor nome coord produtos) \<and> q \<in> set produtos
            \<and> q \<notin> set (take (Suc i) (nearest_neighbor nome coord produtos)) \<longrightarrow>
          distance (coord (nearest_neighbor nome coord produtos ! i))
                   (coord (nearest_neighbor nome coord produtos ! Suc i))
            \<le> distance (coord (nearest_neighbor nome coord produtos ! i)) (coord q)))
   \<and> (gerar_rota_otimizada fs = Inr rota \<longrightarrow>
        (\<exists>resultados. obter_localizacoes_lista fs = Inr resultados
           \<and> rota = nearest_neighbor produto r_coord (filter is_localizado resultados)))
   \<and> (mostrar_rota_visual fs = Inr (instrucoes, rota') \<longrightarrow>
        (\<exists>lista prods. lista_compras fs = Some lista \<and> localizacoes fs = Some prods
           \<and> rota' = nearest_neighbor nome_produto j_coord (selecionados_de lista prods)))
   \<and> (\<exists>route. fst (plan_route store pos items) = Inr route
        \<and> map fst route
            = sort_key (\<lambda>p. distance pos (position p)) (List.map_filter (find_by_name store) items)
        \<and> sorted (map (\<lambda>e. distance pos (position (fst e))) route)
        \<and> (\<forall>e\<in>set route. distance pos (position (fst (hd route))) \<le> distance pos (position (fst e))))"
proof (intro conjI impI allI)
  assume a: "distinct (map nome produtos) \<and> produtos \<noteq> []"
  then obtain p ps where c: "produtos = p # ps" by (cases produtos) auto
  show g: "nearest_neighbor nome coord produtos = greedy_nn coord (coord (hd produtos)) produtos"
    using a c by (simp add: nearest_neighbor_greedy)
  have "nearest coord (coord p) (p # ps) = Some p"
    by (simp add: nearest_def distance_self distance_nonneg)
  then have "greedy_nn coord (coord p) (p # ps) = p # greedy_nn coord (coord p) (remove1 p (p # ps))"
    by (rule greedy_nn_Some)
  then have "hd (greedy_nn coord (coord (hd produtos)) produtos) = hd produtos"
    unfolding c by simp
  then show "hd (nearest_neighbor nome coord produtos) = hd produtos"
    by (simp only: g)
next
  fix i q
  assume d: "distinct (map nome produtos)"
  assume a: "Suc i < length (nearest_neighbor nome coord produtos) \<and> q \<in> set produtos
          \<and> q \<notin> set (take (Suc i) (nearest_neighbor nome coord produtos))"
  then obtain p ps where c: "produtos = p # ps" by (cases produtos) auto
  have g: "nearest_neighbor nome coord produtos = greedy_nn coord (coord p) produtos"
    using c d by (simp add: nearest_neighbor_greedy)
  show "distance (coord (nearest_neighbor nome coord produtos ! i))
                 (coord (nearest_neighbor nome coord produtos ! Suc i))
          \<le> distance (coord (nearest_neighbor nome coord produtos ! i)) (coord q)"
    using a unfolding g by (intro greedy_nn_adjacent) simp_all
next
  assume "gerar_rota_otimizada fs = Inr rota"
  then show "\<exists>resultados. obter_localizacoes_lista fs = Inr resultados
           \<and> rota = nearest_neighbor produto r_coord (filter is_localizado resultados)"
    using gerar_rota_otimizada_Inr by blast
next
  assume "mostrar_rota_visual fs = Inr (instrucoes, rota')"
  then show "\<exists>lista prods. lista_compras fs = Some lista \<and> localizacoes fs = Some prods
           \<and> rota' = nearest_neighbor nome_produto j_coord (selecionados_de lista prods)"
    using mostrar_rota_visual_Inr by blast
next
  from plan_route_order [of store pos items] obtain route where
    r: "fst (plan_route store pos items) = Inr route"
    and m: "map fst route
            = sort_key (\<lambda>p. distance pos (position p)) (List.map_filter (find_by_name store) items)"
    by blast
  have "map (\<lambda>e. distance pos (position (fst e))) route
          = map (\<lambda>p. distance pos (position p)) (map fst route)"
    by simp
  then have s: "sorted (map (\<lambda>e. distance pos (position (fst e))) route)"
    unfolding m by (simp only: sorted_sort_key)
  have f: "\<forall>e\<in>set route. distance pos (position (fst (hd route))) \<le> distance pos (position (fst e))"
  proof (cases route)
    case Nil
    then show ?thesis by simp
  next
    case (Cons x xs)
    with s show ?thesis by auto
  qed
  from r m s f show "\<exists>route. fst (plan_route store pos items) = Inr route
        \<and> map fst route
            = sort_key (\<lambda>p. distance pos (position p)) (List.map_filter (find_by_name store) items)
        \<and> sorted (map (\<lambda>e. distance pos (position (fst e))) route)
        \<and> (\<forall>e\<in>set route. distance pos (position (fst (hd route))) \<le> distance pos (position (fst e)))"
    by blast
qed

theorem nearest_neighbor_route_witness:
  "distinct (map produto [p_atum, p_soja, p_magro]) \<and> [p_atum, p_soja, p_magro] \<noteq> []
   \<and> nearest_neighbor produto r_coord [p_atum, p_soja, p_magro] = [p_atum, p_magro, p_soja]
   \<and> greedy_nn r_coord (3, 4) [p_atum, p_soja, p_magro] = [p_atum, p_magro, p_soja]
   \<and> distance (3, 4) (2, 1) \<le> distance (3, 4) (5, 1)
   \<and> gerar_rota_otimizada (fs_ex [''atum'', ''leite'']) = Inr [p_atum, p_magro, p_soja]
   \<and> nearest_neighbor produto r_coord (filter is_localizado [p_atum, p_magro, p_soja])
       = [p_atum, p_magro, p_soja]"
proof -
  note t = nearest_neighbor_route [of produto "[p_atum, p_soja, p_magro]" r_coord
      "fs_ex [''atum'', ''leite'']" "[p_atum, p_magro, p_soja]" "[]" "[]" loja_linha "(0, 0)"
      "[''cha'', ''bolo'', ''arroz'']"]
  have di: "distinct (map produto [p_atum, p_soja, p_magro])"
    by (simp add: p_ex_simps)
  have ne: "[p_atum, p_soja, p_magro] \<noteq> []" by simp
  have r: "nearest_neighbor produto r_coord [p_atum, p_soja, p_magro] = [p_atum, p_magro, p_soja]"
    by (rule nearest_neighbor_ex1)
  have "nearest_neighbor produto r_coord [p_atum, p_soja, p_magro]
      = greedy_nn r_coord (r_coord (hd [p_atum, p_soja, p_magro])) [p_atum, p_soja, p_magro]"
    using t [THEN conjunct1, rule_format, OF conjI [OF di ne]] by (rule conjunct1)
  then have "greedy_nn r_coord (r_coord (hd [p_atum, p_soja, p_magro])) [p_atum, p_soja, p_magro]
      = [p_atum, p_magro, p_soja]"
    by (simp only: r)
  then have g: "greedy_nn r_coord (3, 4) [p_atum, p_soja, p_magro] = [p_atum, p_magro, p_soja]"
    by (simp only: list.sel p_ex_simps)
  have "Suc 0 < length (nearest_neighbor produto r_coord [p_atum, p_soja, p_magro])
      \<and> p_soja \<in> set [p_atum, p_soja, p_magro]
      \<and> p_soja \<notin> set (take (Suc 0) (nearest_neighbor produto r_coord [p_atum, p_soja, p_magro]))
    \<longrightarrow> distance (r_coord (nearest_neighbor produto r_coord [p_atum, p_soja, p_magro] ! 0))
                 (r_coord (nearest_neighbor produto r_coord [p_atum, p_soja, p_magro] ! Suc 0))
          \<le> distance (r_coord (nearest_neighbor produto r_coord [p_atum, p_soja, p_magro] ! 0)) (r_coord p_soja)"
    using t [THEN conjunct2, THEN conjunct1, rule_format, OF di, of 0 p_soja] by (rule impI)
  then have d: "distance (3, 4) (2, 1) \<le> distance (3, 4) (5, 1)"
    unfolding r by (simp add: p_ex_simps p_ex_distinct)
  have e: "gerar_rota_otimizada (fs_ex [''atum'', ''leite'']) = Inr [p_atum, p_magro, p_soja]"
    by (rule gerar_rota_otimizada_ex(1))
  obtain resultados where o1: "obter_localizacoes_lista (fs_ex [''atum'', ''leite'']) = Inr resultados"
    and o2: "[p_atum, p_magro, p_soja] = nearest_neighbor produto r_coord (filter is_localizado resultados)"
    using t [THEN conjunct2, THEN conjunct2, THEN conjunct1, rule_format, OF e] by (elim exE conjE)
  from o1 have "resultados = [p_atum, p_magro, p_soja]"
    by (simp add: obter_localizacoes_lista_ex)
  then have o: "nearest_neighbor produto r_coord (filter is_localizado [p_atum, p_magro, p_soja])
       = [p_atum, p_magro, p_soja]"
    using o2 [symmetric] by (simp only:)
  show ?thesis
    by (intro conjI) (fact di, fact ne, fact r, fact g, fact d, fact e, fact o)
qed

text \<open>
  Claim C2, as stated, fails for \<^verbatim>\<open>gerar_rota_otimizada\<close>. With a catalogue of the
  three distinct products "Leite" at (0, 0), "Leite" at (9, 9) and "Atum" at (1, 1) and
  the list "leite", "atum", all three are located, and the route is "Leite" at (0, 0),
  "Atum" at (1, 1): the product "Leite" at (9, 9) is omitted, since the loop marks a
  product visited by its name.
\<close>

theorem same_name_counterexample:
  "obter_localizacoes_lista (fs_nomes [''leite'', ''atum''])
     = Inr [localizado (prod_ex ''Leite'' 0 0), localizado (prod_ex ''Leite'' 9 9),
            localizado (prod_ex ''Atum'' 1 1)]
   \<and> distinct [localizado (prod_ex ''Leite'' 0 0), localizado (prod_ex ''Leite'' 9 9),
            localizado (prod_ex ''Atum'' 1 1)]
   \<and> gerar_rota_otimizada (fs_nomes [''leite'', ''atum''])
     = Inr [localizado (prod_ex ''Leite'' 0 0), localizado (prod_ex ''Atum'' 1 1)]
   \<and> localizado (prod_ex ''Leite'' 9 9)
       \<notin> set [localizado (prod_ex ''Leite'' 0 0), localizado (prod_ex ''Atum'' 1 1)]
   \<and> length [localizado (prod_ex ''Leite'' 0 0), localizado (prod_ex ''Atum'' 1 1)]
       < length [localizado (prod_ex ''Leite'' 0 0), localizado (prod_ex ''Leite'' 9 9),
            localizado (prod_ex ''Atum'' 1 1)]"
proof -
  have d: "distinct [localizado (prod_ex ''Leite'' 0 0), localizado (prod_ex ''Leite'' 9 9),
            localizado (prod_ex ''Atum'' 1 1)]"
    by (simp add: localizado_def prod_ex_def)
  have n: "localizado (prod_ex ''Leite'' 9 9)
       \<notin> set [localizado (prod_ex ''Leite'' 0 0), localizado (prod_ex ''Atum'' 1 1)]"
    by (simp add: localizado_def prod_ex_def)
  have l: "length [localizado (prod_ex ''Leite'' 0 0), localizado (prod_ex ''Atum'' 1 1)]
       < length [localizado (prod_ex ''Leite'' 0 0), localizado (prod_ex ''Leite'' 9 9),
            localizado (prod_ex ''Atum'' 1 1)]"
    by simp
  show ?thesis
    using nomes_ex(1) d gerar_rota_otimizada_nomes n l by blast
qed

text \<open>
  Claim C2, amended. For every non-empty list of positioned products with pairwise
  distinct names given to the nearest-neighbour loop, the route is a permutation of the
  input: the same multiset, no duplicate, the same length. For every input, the route
  visits exactly one product of each name that occurs in the input (a product that
  shares its name with a visited one is omitted); every product of the route is drawn
  from the input and no name occurs twice in it, so that the length of the route is the
  number of distinct names and never exceeds the number of input products. The route of
  \<^verbatim>\<open>gerar_rota_otimizada\<close> is that route of the non-empty list of the located entries
  of \<^verbatim>\<open>obter_localizacoes_lista\<close>, and the route of \<^verbatim>\<open>mostrar_rota_visual\<close> that
  of the non-empty list of the selected catalogue entries.
\<close>

theorem route_is_permutation:
  "set (nearest_neighbor nome coord produtos) \<subseteq> set produtos
   \<and> distinct (map nome (nearest_neighbor nome coord produtos))
   \<and> nome ` set (nearest_neighbor nome coord produtos) = nome ` set produtos
   \<and> length (nearest_neighbor nome coord produtos) = card (nome ` set produtos)
   \<and> length (nearest_neighbor nome coord produtos) \<le> length produtos
   \<and> (distinct (map nome produtos) \<longrightarrow>
        mset (nearest_neighbor nome coord produtos) = mset produtos
        \<and> distinct (nearest_neighbor nome coord produtos)
        \<and> length (nearest_neighbor nome coord produtos) = length produtos)
   \<and> (gerar_rota_otimizada fs = Inr rota \<longrightarrow>
        (\<exists>resultados. obter_localizacoes_lista fs = Inr resultados
           \<and> filter is_localizado resultados \<noteq> []
           \<and> rota = nearest_neighbor produto r_coord (filter is_localizado resultados)))
   \<and> (mostrar_rota_visual fs = Inr (instrucoes, rota') \<longrightarrow>
        (\<exists>lista prods. lista_compras fs = Some lista \<and> localizacoes fs = Some prods
           \<and> selecionados_de lista prods \<noteq> []
           \<and> rota' = nearest_neighbor nome_produto j_coord (selecionados_de lista prods)))"
  using nearest_neighbor_props [of nome coord produtos] nearest_neighbor_length [of nome coord produtos]
    nearest_neighbor_length_card [of nome coord produtos]
    nearest_neighbor_perm [of nome produtos coord] gerar_rota_otimizada_Inr [of fs rota]
    mostrar_rota_visual_Inr [of fs instrucoes rota']
  by blast

theorem route_is_permutation_witness:
  "distinct (map produto [p_atum, p_soja, p_magro])
   \<and> nearest_neighbor produto r_coord [p_atum, p_soja, p_magro] = [p_atum, p_magro, p_soja]
   \<and> mset [p_atum, p_magro, p_soja] = mset [p_atum, p_soja, p_magro]
   \<and> gerar_rota_otimizada (fs_ex [''leite'', ''sal'', ''magro'']) = Inr [p_magro, p_soja]
   \<and> nearest_neighbor produto r_coord (filter is_localizado [p_magro, p_soja, NaoEncontrado ''sal'', p_magro])
       = [p_magro, p_soja]
   \<and> length [p_magro, p_soja] \<le> length [p_magro, p_soja, p_magro]"
proof -
  note t = route_is_permutation [of produto r_coord "[p_atum, p_soja, p_magro]"
      "fs_ex [''leite'', ''sal'', ''magro'']" "[p_magro, p_soja]"]
  have d: "distinct (map produto [p_atum, p_soja, p_magro])"
    by (simp add: p_ex_simps)
  have r: "nearest_neighbor produto r_coord [p_atum, p_soja, p_magro] = [p_atum, p_magro, p_soja]"
    by (rule nearest_neighbor_ex1)
  have "mset (nearest_neighbor produto r_coord [p_atum, p_soja, p_magro])
      = mset [p_atum, p_soja, p_magro]"
    using t [THEN conjunct2, THEN conjunct2, THEN conjunct2, THEN conjunct2, THEN conjunct2,
        THEN conjunct1, rule_format, OF d]
    by (rule conjunct1)
  then have m: "mset [p_atum, p_magro, p_soja] = mset [p_atum, p_soja, p_magro]"
    by (simp only: r)
  have e: "gerar_rota_otimizada (fs_ex [''leite'', ''sal'', ''magro'']) = Inr [p_magro, p_soja]"
    by (rule gerar_rota_otimizada_ex(2))
  obtain resultados where
    o1: "obter_localizacoes_lista (fs_ex [''leite'', ''sal'', ''magro'']) = Inr resultados"
    and o2: "[p_magro, p_soja] = nearest_neighbor produto r_coord (filter is_localizado resultados)"
    using t [THEN conjunct2, THEN conjunct2, THEN conjunct2, THEN conjunct2, THEN conjunct2,
        THEN conjunct2, THEN conjunct1, rule_format, OF e] by (elim exE conjE)
  from o1 have "resultados = [p_magro, p_soja, NaoEncontrado ''sal'', p_magro]"
    by (simp add: obter_localizacoes_lista_ex)
  then have f: "nearest_neighbor produto r_coord
        (filter is_localizado [p_magro, p_soja, NaoEncontrado ''sal'', p_magro]) = [p_magro, p_soja]"
    using o2 [symmetric] by (simp only:)
  have "length (nearest_neighbor produto r_coord [p_magro, p_soja, p_magro])
      \<le> length [p_magro, p_soja, p_magro]"
    by (rule route_is_permutation [of produto r_coord "[p_magro, p_soja, p_magro]",
          THEN conjunct2, THEN conjunct2, THEN conjunct2, THEN conjunct2, THEN conjunct1])
  then have l: "length [p_magro, p_soja] \<le> length [p_magro, p_soja, p_magro]"
    by (simp only: nearest_neighbor_ex3)
  show ?thesis
    by (intro conjI) (fact d, fact r, fact m, fact e, fact f, fact l)
qed

section \<open>Proximity scan\<close>

lemma distance_le_iff:
  "0 \<le> r \<Longrightarrow> distance a b \<le> r \<longleftrightarrow> (fst a - fst b)\<^sup>2 + (snd a - snd b)\<^sup>2 \<le> r\<^sup>2"
  unfolding distance_def
  by (metis real_le_lsqrt sqrt_le_D)

lemma scan_items_entries:
  "scan_items rng noise ps rnd k es =
     (map (\<lambda>(i, e). (fst e, distance ps (position (snd e))))
        (filter (\<lambda>(i, e). noise < rnd i)
           (List.enumerate k (filter (\<lambda>e. distance ps (position (snd e)) \<le> rng) es))),
      k + length (filter (\<lambda>e. distance ps (position (snd e)) \<le> rng) es))"
proof (induction es arbitrary: k)
  case Nil
  then show ?case by simp
next
  case (Cons e es)
  show ?case
  proof (cases "distance ps (position (snd e)) \<le> rng")
    case False
    then show ?thesis using Cons.IH [of k] by (simp add: Let_def)
  next
    case True
    then show ?thesis
      using Cons.IH [of "Suc k"] by (simp add: Let_def)
  qed
qed

lemma scan_entries:
  "fst (scan self ps rnd k) =
     map (\<lambda>(i, e). (fst e, distance ps (position (snd e))))
        (filter (\<lambda>(i, e). noise_prob self < rnd i)
           (List.enumerate k
              (filter (\<lambda>e. distance ps (position (snd e)) \<le> range_meters self) (store_map self))))"
  by (simp add: scan_def scan_items_entries)

lemma scan_items_all:
  "\<forall>e\<in>set es. distance ps (position (snd e)) \<le> rng \<Longrightarrow> \<forall>i\<ge>k. noise < rnd i \<Longrightarrow>
   fst (scan_items rng noise ps rnd k es) = map (\<lambda>e. (fst e, distance ps (position (snd e)))) es"
proof (induction es arbitrary: k)
  case Nil
  then show ?case by simp
next
  case (Cons e es)
  have "fst (scan_items rng noise ps rnd (Suc k) es)
          = map (\<lambda>e. (fst e, distance ps (position (snd e)))) es"
    using Cons.prems by (intro Cons.IH) auto
  then show ?case
    using Cons.prems by (simp add: Let_def split_beta)
qed

lemma scan_items_none:
  "\<forall>i\<ge>k. rnd i \<le> noise \<Longrightarrow> fst (scan_items rng noise ps rnd k es) = []"
proof (induction es arbitrary: k)
  case Nil
  then show ?case by simp
next
  case (Cons e es)
  have a: "fst (scan_items rng noise ps rnd (Suc k) es) = []"
    using Cons.prems by (intro Cons.IH) auto
  have b: "fst (scan_items rng noise ps rnd k es) = []"
    using Cons.prems by (intro Cons.IH) auto
  have "\<not> noise < rnd k" using Cons.prems by (simp add: not_less)
  then show ?case
    using a b by (simp add: Let_def)
qed

lemma scan_items_only_if:
  "(u, d) \<in> set (fst (scan_items rng noise ps rnd k es)) \<Longrightarrow>
   d \<le> rng \<and> (\<exists>p i. (u, p) \<in> set es \<and> d = distance ps (position p) \<and> k \<le> i \<and> noise < rnd i)"
proof (induction es arbitrary: k)
  case Nil
  then show ?case by simp
next
  case (Cons e es)
  show ?case
  proof (cases "distance ps (position (snd e)) \<le> rng")
    case False
    with Cons.prems have "(u, d) \<in> set (fst (scan_items rng noise ps rnd k es))"
      by (simp add: Let_def)
    from Cons.IH [OF this] show ?thesis by auto
  next
    case True
    show ?thesis
    proof (cases "noise < rnd k")
      case False
      with True Cons.prems have "(u, d) \<in> set (fst (scan_items rng noise ps rnd (Suc k) es))"
        by (simp add: Let_def)
      from Cons.IH [OF this] show ?thesis by (auto intro: Suc_leD)
    next
      case n: True
      with True Cons.prems
      consider "(u, d) = (fst e, distance ps (position (snd e)))"
        | "(u, d) \<in> set (fst (scan_items rng noise ps rnd (Suc k) es))"
        by (auto simp: Let_def split_beta)
      then show ?thesis
      proof cases
        case 1
        then have "(u, snd e) \<in> set (e # es) \<and> d = distance ps (position (snd e)) \<and> k \<le> k
            \<and> noise < rnd k"
          using n by (cases e) auto
        with True 1 show ?thesis by blast
      next
        case 2
        from Cons.IH [OF this] show ?thesis by (auto intro: Suc_leD)
      qed
    qed
  qed
qed

lemma distance_less_iff:
  "distance a b < distance c d
     \<longleftrightarrow> (fst a - fst b)\<^sup>2 + (snd a - snd b)\<^sup>2 < (fst c - fst d)\<^sup>2 + (snd c - snd d)\<^sup>2"
  by (simp only: distance_def real_sqrt_less_iff)

lemma scan_ex:
  "fst (scan (leitor_ex 0) (0, 0) rnd_meio 0)
     = [(''u1'', distance (0, 0) (2, 1)), (''u2'', distance (0, 0) (5, 1)),
        (''u3'', distance (0, 0) (3, 4))]"
  "fst (scan (leitor_ex 0) (0, 0) rnd_zero 0) = []"
  "fst (scan (leitor_ex 1) (0, 0) rnd_meio 0) = []"
  by (simp_all add: scan_def leitor_ex_def loja_ex_eq rnd_meio_def rnd_zero_def distance_le_iff
      Let_def)

text \<open>
  Claim C6, as stated, fails for \<^verbatim>\<open>RFIDReader.scan\<close>. With noise probability 0, a
  range of 10 that covers the three products of the example store and every draw equal to
  0.5, the scan from (0, 0) returns the products in the insertion order of the store,
  where the second (at distance \<open>sqrt 26\<close>) is farther than the third (at distance 5):
  the result is not ordered closest-first. With every draw equal to 0, a value that
  \<^verbatim>\<open>random.random()\<close> can return, the same scan returns nothing, since the test is
  a strict \<^verbatim>\<open>random.random() > noise_prob\<close>.
\<close>

theorem scan_counterexample:
  "fst (scan (leitor_ex 0) (0, 0) rnd_meio 0)
     = [(''u1'', distance (0, 0) (2, 1)), (''u2'', distance (0, 0) (5, 1)),
        (''u3'', distance (0, 0) (3, 4))]
   \<and> distance (0, 0) (3, 4) < distance (0, 0) (5, 1)
   \<and> \<not> sorted (map snd (fst (scan (leitor_ex 0) (0, 0) rnd_meio 0)))
   \<and> fst (scan (leitor_ex 0) (0, 0) rnd_zero 0) = []"
proof -
  have c: "distance (0, 0) (3, 4) < distance (0, 0) (5, 1)"
    by (simp add: distance_less_iff)
  then have ns: "\<not> sorted [distance (0, 0) (2, 1), distance (0, 0) (5, 1), distance (0, 0) (3, 4)]"
    by simp
  have e: "map snd (fst (scan (leitor_ex 0) (0, 0) rnd_meio 0))
      = [distance (0, 0) (2, 1), distance (0, 0) (5, 1), distance (0, 0) (3, 4)]"
    by (simp add: scan_ex(1))
  have n: "\<not> sorted (map snd (fst (scan (leitor_ex 0) (0, 0) rnd_meio 0)))"
    unfolding e by (rule ns)
  from scan_ex(1) c n scan_ex(2) show ?thesis by blast
qed

text \<open>
  Claim C6, amended. For every scanner position, \<^verbatim>\<open>scan\<close> returns, in the insertion
  order of the catalogue (not ordered by distance), the identifier and the distance of
  exactly those products whose Euclidean distance to the scan position is at most the
  configured range and whose own random draw strictly exceeds the noise probability; a
  draw is made for each product in range, in order. Hence with noise probability 0, a
  range covering all products and all draws greater than 0, it returns every catalogue
  product paired with its distance, in insertion order; with noise probability 1 it
  returns an empty result for all draws (which are below 1); and in every case an entry
  appears only if its distance is at most the range and a draw exceeds the noise
  probability.
\<close>

theorem scan_entries_in_range:
  "fst (scan self ps rnd k) =
     map (\<lambda>(i, e). (fst e, distance ps (position (snd e))))
        (filter (\<lambda>(i, e). noise_prob self < rnd i)
           (List.enumerate k
              (filter (\<lambda>e. distance ps (position (snd e)) \<le> range_meters self) (store_map self))))
   \<and> snd (scan self ps rnd k) =
       k + length (filter (\<lambda>e. distance ps (position (snd e)) \<le> range_meters self) (store_map self))
   \<and> ((\<forall>e\<in>set (store_map self). distance ps (position (snd e)) \<le> range_meters self)
         \<and> noise_prob self = 0 \<and> (\<forall>i. 0 < rnd i) \<longrightarrow>
        fst (scan self ps rnd k) = map (\<lambda>e. (fst e, distance ps (position (snd e)))) (store_map self))
   \<and> (noise_prob self = 1 \<and> (\<forall>i. rnd i < 1) \<longrightarrow> fst (scan self ps rnd k) = [])
   \<and> (\<forall>u d. (u, d) \<in> set (fst (scan self ps rnd k)) \<longrightarrow>
         d \<le> range_meters self
         \<and> (\<exists>p i. (u, p) \<in> set (store_map self) \<and> d = distance ps (position p) \<and> k \<le> i
               \<and> noise_prob self < rnd i))"
proof (intro conjI impI allI)
  show "fst (scan self ps rnd k) =
     map (\<lambda>(i, e). (fst e, distance ps (position (snd e))))
        (filter (\<lambda>(i, e). noise_prob self < rnd i)
           (List.enumerate k
              (filter (\<lambda>e. distance ps (position (snd e)) \<le> range_meters self) (store_map self))))"
    by (rule scan_entries)
  show "snd (scan self ps rnd k) =
       k + length (filter (\<lambda>e. distance ps (position (snd e)) \<le> range_meters self) (store_map self))"
    by (simp add: scan_def scan_items_entries)
next
  assume "(\<forall>e\<in>set (store_map self). distance ps (position (snd e)) \<le> range_meters self)
         \<and> noise_prob self = 0 \<and> (\<forall>i. 0 < rnd i)"
  then show "fst (scan self ps rnd k)
      = map (\<lambda>e. (fst e, distance ps (position (snd e)))) (store_map self)"
    unfolding scan_def by (intro scan_items_all) simp_all
next
  assume "noise_prob self = 1 \<and> (\<forall>i. rnd i < 1)"
  then show "fst (scan self ps rnd k) = []"
    unfolding scan_def by (intro scan_items_none) (simp add: less_imp_le)
next
  fix u d
  assume a: "(u, d) \<in> set (fst (scan self ps rnd k))"
  from scan_items_only_if [OF a [unfolded scan_def]]
  show "d \<le> range_meters self" by simp
  from scan_items_only_if [OF a [unfolded scan_def]]
  show "\<exists>p i. (u, p) \<in> set (store_map self) \<and> d = distance ps (position p) \<and> k \<le> i
               \<and> noise_prob self < rnd i" by simp
qed

theorem scan_entries_in_range_witness:
  "distance (0, 0) (2, 1) \<le> range_meters (leitor_ex 0)
   \<and> distance (0, 0) (5, 1) \<le> range_meters (leitor_ex 0)
   \<and> noise_prob (leitor_ex 0) = 0 \<and> 0 < rnd_meio 0 \<and> 0 < rnd_meio 1 \<and> 0 < rnd_meio 2
   \<and> fst (scan (leitor_ex 0) (0, 0) rnd_meio 0)
       = [(''u1'', distance (0, 0) (2, 1)), (''u2'', distance (0, 0) (5, 1)),
          (''u3'', distance (0, 0) (3, 4))]
   \<and> noise_prob (leitor_ex 1) = 1 \<and> rnd_meio 0 < 1 \<and> rnd_meio 1 < 1 \<and> rnd_meio 2 < 1
   \<and> fst (scan (leitor_ex 1) (0, 0) rnd_meio 0) = []
   \<and> distance (0, 0) (3, 4) \<le> range_meters (leitor_ex 0)"
proof -
  note t0 = scan_entries_in_range [of "leitor_ex 0" "(0, 0)" rnd_meio 0]
  note t1 = scan_entries_in_range [of "leitor_ex 1" "(0, 0)" rnd_meio 0]
  have h0: "(\<forall>e\<in>set (store_map (leitor_ex 0)).
               distance (0, 0) (position (snd e)) \<le> range_meters (leitor_ex 0))
         \<and> noise_prob (leitor_ex 0) = 0 \<and> (\<forall>i. 0 < rnd_meio i)"
    by (simp add: leitor_ex_def loja_ex_eq rnd_meio_def distance_le_iff)
  have "fst (scan (leitor_ex 0) (0, 0) rnd_meio 0)
      = map (\<lambda>e. (fst e, distance (0, 0) (position (snd e)))) (store_map (leitor_ex 0))"
    using t0 [THEN conjunct2, THEN conjunct2, THEN conjunct1] h0 by (rule mp)
  then have a: "fst (scan (leitor_ex 0) (0, 0) rnd_meio 0)
       = [(''u1'', distance (0, 0) (2, 1)), (''u2'', distance (0, 0) (5, 1)),
          (''u3'', distance (0, 0) (3, 4))]"
    by (simp add: leitor_ex_def loja_ex_eq)
  have h1: "noise_prob (leitor_ex 1) = 1 \<and> (\<forall>i. rnd_meio i < 1)"
    by (simp add: leitor_ex_def rnd_meio_def)
  have b: "fst (scan (leitor_ex 1) (0, 0) rnd_meio 0) = []"
    using t1 [THEN conjunct2, THEN conjunct2, THEN conjunct2, THEN conjunct1] h1 by (rule mp)
  have m: "(''u3'', distance (0, 0) (3, 4)) \<in> set (fst (scan (leitor_ex 0) (0, 0) rnd_meio 0))"
    by (simp only: a) simp
  have c: "distance (0, 0) (3, 4) \<le> range_meters (leitor_ex 0)"
    by (rule t0 [THEN conjunct2, THEN conjunct2, THEN conjunct2, THEN conjunct2, rule_format,
          OF m, THEN conjunct1])
  have r: "distance (0, 0) (2, 1) \<le> range_meters (leitor_ex 0)"
    "distance (0, 0) (5, 1) \<le> range_meters (leitor_ex 0)"
    by (simp_all add: leitor_ex_def distance_le_iff)
  have d: "0 < rnd_meio 0" "0 < rnd_meio 1" "0 < rnd_meio 2"
    "rnd_meio 0 < 1" "rnd_meio 1 < 1" "rnd_meio 2 < 1"
    by (simp_all add: rnd_meio_def)
  show ?thesis
    using h0 a h1 b c r d by blast
qed

end
